theory Spec2Isabelle
  imports Main "HOL-Library.Word" "HOL-Library.AList"
begin

section \<open>Snap sync coordinator (eth/protocols/snap/sync.go)\<close>

text \<open>
  A shallow embedding of the snapshot syncer. Conventions of the model:

  \<^item> \<open>common.Hash\<close> is a 256-bit word; \<open>Big\<close> reads it as a big integer and
    \<open>BigToHash\<close> keeps the low 32 bytes, as the source's conversions do.
  \<^item> Go pointers are references into typed heaps held in the syncer record
    (\<open>accountTaskAt\<close>, \<open>storageTaskAt\<close>, the request heaps, \<open>chanAt\<close>); a reference
    is a natural number and \<open>nextRef\<close> is the allocator. Pointer equality of the
    source (\<open>req.task.req == req\<close>) is equality of references.
  \<^item> A Go map that the source only looks up is a HOL set or a map. A Go map that the
    source ranges over is a list (of keys, or of key/value pairs) without duplicate
    keys; the list order stands for the order the runtime happens to pick, which Go
    leaves open. No theorem below depends on that order.
  \<^item> A \<open>chan struct{}\<close> used as a close-only signal is \<open>Open\<close> or \<open>Closed\<close>;
    closing a closed channel panics, as in Go. The unbuffered failure and response
    channels are queues that the event loop drains.
  \<^item> A panic of the source (index out of range, nil dereference, a failing
    \<open>Prove\<close>) is the \<open>Inl\<close> branch of the result.
  \<^item> \<open>common.StorageSize\<close> (a float64 holding a byte count) is a natural number.
  \<^item> The source draws request ids from \<open>rand.Int63\<close> until one is usable; the model
    takes the values the generator will return as a list and yields \<open>None\<close> when the
    list runs out before a usable id is found.
\<close>

subsection \<open>Hashes and constants\<close>

type_synonym hash = "256 word"
type_synonym uint64 = "64 word"
type_synonym bytes = "8 word list"
type_synonym peerID = string
type_synonym ref = nat
type_synonym storageSize = nat
type_synonym syncPath = "bytes list"

definition Big :: "hash \<Rightarrow> int" where
  "Big h = uint h"

definition BigToHash :: "int \<Rightarrow> hash" where
  "BigToHash b = word_of_int \<bar>b\<bar>"

definition BytesToHash :: "bytes \<Rightarrow> hash" where
  "BytesToHash b = word_rcat (drop (length b - 32) b)"

definition hashBytes :: "hash \<Rightarrow> bytes" where
  "hashBytes h = map (\<lambda>i. ucast (drop_bit (8 * (31 - i)) h)) [0..<32]"

definition emptyRoot :: hash where
  "emptyRoot = 0x56e81f171bcc55a6ff8345e692c0f86e5b48e01b996cadc001622fb5e363b421"

definition emptyCode :: hash where
  "emptyCode = 0xc5d2460186f7233c927e7db2dcc703c0e500b653ca82273b7bfad8045d85a470"

definition maxHash :: hash where
  "maxHash = 0xffffffffffffffffffffffffffffffffffffffffffffffffffffffffffffffff"

definition maxRequestSize :: nat where
  "maxRequestSize = 512 * 1024"

definition maxStorageSetRequestCount :: nat where
  "maxStorageSetRequestCount = maxRequestSize div 1024"

definition maxCodeRequestCount :: nat where
  "maxCodeRequestCount = maxRequestSize div (24 * 1024) * 4"

definition maxTrieRequestCount :: nat where
  "maxTrieRequestCount = 512"

definition accountConcurrency :: nat where
  "accountConcurrency = 16"

definition storageConcurrency :: nat where
  "storageConcurrency = 16"

definition hashSpace :: int where
  "hashSpace = 2 ^ 256"

subsection \<open>Errors, signals and timers\<close>

datatype error =
    ErrAlreadyRegistered
  | ErrNotRegistered
  | ErrProof
  | ErrUnexpected
  | ErrSizeMismatch
  | ErrTooManyHashes
  | PanicIndexOutOfRange
  | PanicNilDereference
  | PanicProve
  | PanicCloseOfClosedChannel

datatype chan = Open | Closed

datatype timer = Armed | Stopped | Fired

definition close :: "chan \<Rightarrow> error + chan" where
  "close c = (case c of Open \<Rightarrow> Inr Closed | Closed \<Rightarrow> Inl PanicCloseOfClosedChannel)"

text \<open>\<open>Timer.Stop\<close>: the flag tells whether this call stopped a running timer.\<close>

definition Stop :: "timer \<Rightarrow> bool \<times> timer" where
  "Stop t = (case t of Armed \<Rightarrow> (True, Stopped) | Stopped \<Rightarrow> (False, Stopped) | Fired \<Rightarrow> (False, Fired))"

definition index :: "'a list \<Rightarrow> nat \<Rightarrow> error + 'a" where
  "index xs i = (if i < length xs then Inr (xs ! i) else Inl PanicIndexOutOfRange)"

subsection \<open>Requests and responses\<close>

text \<open>
  The five request structs share their first five fields; the model states them once
  in \<open>request\<close> and extends it per class. Fields that several structs name alike
  (\<open>task\<close>, \<open>hashes\<close>, \<open>origin\<close>, ...) are written with the record's name in front.
\<close>

record request =
  peer :: peerID
  id_req :: uint64
  cancel :: ref
  timeout :: timer
  stale :: chan

record accountRequest = request +
  origin :: hash
  limit :: hash
  task :: ref

record bytecodeRequest = request +
  hashes :: "hash list"
  task :: ref

record storageRequest = request +
  accounts :: "hash list"
  roots :: "hash list"
  origin :: hash
  limit :: hash
  mainTask :: ref
  subTask :: "ref option"

record trienodeHealRequest = request +
  hashes :: "hash list"
  paths :: "syncPath list"
  task :: ref

record bytecodeHealRequest = request +
  hashes :: "hash list"
  task :: ref

record account =
  Nonce :: uint64
  Balance :: int
  Root :: hash
  CodeHash :: bytes

text \<open>
  The reconstructed trie of a response is used through \<open>Prove\<close> only: the model keeps,
  per key, the hashes of the nodes \<open>Prove\<close> would add to a node set, or \<open>None\<close> where
  \<open>Prove\<close> returns an error. A \<open>light.NodeSet\<close> and the boundary map are used for
  membership only and are sets of node hashes. The node database of a response is the
  list of its key/value pairs in iteration order.
\<close>

type_synonym trie = "hash \<Rightarrow> hash list option"

record accountResponse =
  task :: ref
  hashes :: "hash list"
  accounts :: "account list"
  nodes :: "(hash \<times> bytes) list"
  trie :: trie
  bounds :: "hash set"
  overflow :: "hash set"
  cont :: bool

record bytecodeResponse =
  task :: ref
  hashes :: "hash list"
  codes :: "bytes option list"

record storageResponse =
  mainTask :: ref
  subTask :: "ref option"
  accounts :: "hash list"
  roots :: "hash list"
  hashes :: "hash list list"
  slots :: "bytes list list"
  nodes :: "(hash \<times> bytes) list list"
  tries :: "trie list"
  bounds :: "hash set"
  overflow :: "hash set"
  cont :: bool

record trienodeHealResponse =
  task :: ref
  hashes :: "hash list"
  paths :: "syncPath list"
  nodes :: "bytes option list"

record bytecodeHealResponse =
  task :: ref
  hashes :: "hash list"
  codes :: "bytes option list"

subsection \<open>Tasks\<close>

text \<open>
  \<open>interval\<close> holds the two bounds that both task structs start with; \<open>task\<close> adds
  the request slot and the completion flag they also share (\<open>done\<close> is a keyword of
  Isabelle, so the flag is \<open>done_flag\<close>).
\<close>

record interval =
  Next :: hash
  Last :: hash

record task = interval +
  req :: "ref option"
  done_flag :: bool

record storageTask = task +
  root :: hash

record accountTask = task +
  SubTasks :: "(hash \<times> ref list) list"
  res :: "accountResponse option"
  pend :: int
  needCode :: "bool list"
  needState :: "bool list"
  needHeal :: "bool list"
  codeTasks :: "hash list"
  stateTasks :: "(hash \<times> hash) list"

record 'sch healTask =
  scheduler :: 'sch
  trieTasks :: "(hash \<times> syncPath) list"
  healCodeTasks :: "hash list"

subsection \<open>Persisted progress and the database\<close>

text \<open>
  \<open>json.Marshal\<close> writes the exported fields only: of an account task its \<open>Next\<close>,
  \<open>Last\<close> and \<open>SubTasks\<close>, of a storage task its \<open>Next\<close> and \<open>Last\<close>.
\<close>

record accountTaskJSON = interval +
  SubTasksJSON :: "(hash \<times> interval list) list"

record syncProgress =
  Tasks :: "accountTaskJSON list"
  AccountSynced :: uint64
  AccountBytes :: storageSize
  BytecodeSynced :: uint64
  BytecodeBytes :: storageSize
  StorageSynced :: uint64
  StorageBytes :: storageSize
  TrienodeHealSynced :: uint64
  TrienodeHealBytes :: storageSize
  TrienodeHealDups :: uint64
  TrienodeHealNops :: uint64
  BytecodeHealSynced :: uint64
  BytecodeHealBytes :: storageSize
  BytecodeHealDups :: uint64
  BytecodeHealNops :: uint64

text \<open>
  Modelled from the spec: the key-value store and its key schema (package rawdb) are
  collaborators. One key stores the serialized progress, a JSON-equivalent tagged
  record: \<open>Encoded p\<close> is the text \<open>json.Marshal\<close> produces for \<open>p\<close> and
  \<open>json.Unmarshal\<close> reads back, \<open>Malformed\<close> any text \<open>json.Unmarshal\<close> rejects.
  Snapshot records and bytecodes live under their own key prefixes, interior trie
  nodes under their 32-byte hash.
\<close>

datatype stored = Malformed | Encoded syncProgress

datatype dbkey =
    CodeKey hash
  | AccountSnapshotKey hash
  | StorageSnapshotKey hash hash
  | TrieNodeKey hash

record database =
  syncStatus :: "stored option"
  kv :: "dbkey \<rightharpoonup> bytes"

definition batchWrite :: "(dbkey \<times> bytes) list \<Rightarrow> database \<Rightarrow> database" where
  "batchWrite batch d = d\<lparr>kv := fold (\<lambda>(k, v) m. m(k \<mapsto> v)) batch (kv d)\<rparr>"

subsection \<open>The syncer\<close>

record 'sch syncer =
  db :: database
  root :: hash
  tasks :: "ref list"
  snapped :: bool
  healer :: ref
  update :: bool
  peers :: "peerID set"
  peerJoin :: "peerID list"
  peerDrop :: "peerID list"
  statelessPeers :: "peerID set"
  accountIdlers :: "peerID list"
  bytecodeIdlers :: "peerID list"
  storageIdlers :: "peerID list"
  accountReqs :: "uint64 \<rightharpoonup> ref"
  bytecodeReqs :: "uint64 \<rightharpoonup> ref"
  storageReqs :: "uint64 \<rightharpoonup> ref"
  accountReqFails :: "ref list"
  bytecodeReqFails :: "ref list"
  storageReqFails :: "ref list"
  accountResps :: "accountResponse list"
  bytecodeResps :: "bytecodeResponse list"
  storageResps :: "storageResponse list"
  accountSynced :: uint64
  accountBytes :: storageSize
  bytecodeSynced :: uint64
  bytecodeBytes :: storageSize
  storageSynced :: uint64
  storageBytes :: storageSize
  trienodeHealIdlers :: "peerID list"
  bytecodeHealIdlers :: "peerID list"
  trienodeHealReqs :: "uint64 \<rightharpoonup> ref"
  bytecodeHealReqs :: "uint64 \<rightharpoonup> ref"
  trienodeHealReqFails :: "ref list"
  bytecodeHealReqFails :: "ref list"
  trienodeHealResps :: "trienodeHealResponse list"
  bytecodeHealResps :: "bytecodeHealResponse list"
  trienodeHealSynced :: uint64
  trienodeHealBytes :: storageSize
  trienodeHealDups :: uint64
  trienodeHealNops :: uint64
  bytecodeHealSynced :: uint64
  bytecodeHealBytes :: storageSize
  bytecodeHealDups :: uint64
  bytecodeHealNops :: uint64
  accountTaskAt :: "ref \<Rightarrow> accountTask"
  storageTaskAt :: "ref \<Rightarrow> storageTask"
  healTaskAt :: "ref \<Rightarrow> 'sch healTask"
  accountRequestAt :: "ref \<Rightarrow> accountRequest"
  bytecodeRequestAt :: "ref \<Rightarrow> bytecodeRequest"
  storageRequestAt :: "ref \<Rightarrow> storageRequest"
  trienodeHealRequestAt :: "ref \<Rightarrow> trienodeHealRequest"
  bytecodeHealRequestAt :: "ref \<Rightarrow> bytecodeHealRequest"
  chanAt :: "ref \<Rightarrow> chan"
  nextRef :: ref

subsection \<open>Peer registry\<close>

definition Register :: "peerID \<Rightarrow> 'sch syncer \<Rightarrow> error + 'sch syncer" where
  "Register pid s =
     (if pid \<in> peers s then Inl ErrAlreadyRegistered
      else Inr (s\<lparr>peers := insert pid (peers s),
                  accountIdlers := List.insert pid (accountIdlers s),
                  storageIdlers := List.insert pid (storageIdlers s),
                  bytecodeIdlers := List.insert pid (bytecodeIdlers s),
                  trienodeHealIdlers := List.insert pid (trienodeHealIdlers s),
                  bytecodeHealIdlers := List.insert pid (bytecodeHealIdlers s),
                  peerJoin := peerJoin s @ [pid]\<rparr>))"

definition Unregister :: "peerID \<Rightarrow> 'sch syncer \<Rightarrow> error + 'sch syncer" where
  "Unregister pid s =
     (if pid \<notin> peers s then Inl ErrNotRegistered
      else Inr (s\<lparr>peers := peers s - {pid},
                  statelessPeers := statelessPeers s - {pid},
                  accountIdlers := removeAll pid (accountIdlers s),
                  storageIdlers := removeAll pid (storageIdlers s),
                  bytecodeIdlers := removeAll pid (bytecodeIdlers s),
                  trienodeHealIdlers := removeAll pid (trienodeHealIdlers s),
                  bytecodeHealIdlers := removeAll pid (bytecodeHealIdlers s),
                  peerDrop := peerDrop s @ [pid]\<rparr>))"

text \<open>
  The peer selection every assigner runs: the first idle peer that is not marked
  stateless, or the empty string when there is none.
\<close>

definition findIdle :: "peerID list \<Rightarrow> peerID set \<Rightarrow> peerID" where
  "findIdle idlers stateless =
     (case find (\<lambda>pid. pid \<notin> stateless) idlers of None \<Rightarrow> [] | Some pid \<Rightarrow> pid)"


subsection \<open>Task chunker and progress store\<close>

text \<open>
  \<open>json.Unmarshal\<close> builds new task objects; every field that is not exported keeps
  its zero value.
\<close>

fun allocStorageTasks :: "interval list \<Rightarrow> 'sch syncer \<Rightarrow> ref list \<times> 'sch syncer" where
  "allocStorageTasks [] s = ([], s)"
| "allocStorageTasks (iv # ivs) s =
     (let r = nextRef s;
          s1 = s\<lparr>storageTaskAt := (storageTaskAt s)
                    (r := \<lparr>Next = Next iv, Last = Last iv, req = None, done_flag = False,
                           storageTask.root = 0\<rparr>),
                  nextRef := Suc r\<rparr>;
          (rs, s2) = allocStorageTasks ivs s1
      in (r # rs, s2))"

fun allocSubTasks ::
  "(hash \<times> interval list) list \<Rightarrow> 'sch syncer \<Rightarrow> (hash \<times> ref list) list \<times> 'sch syncer" where
  "allocSubTasks [] s = ([], s)"
| "allocSubTasks ((h, ivs) # rest) s =
     (let (rs, s1) = allocStorageTasks ivs s;
          (subs, s2) = allocSubTasks rest s1
      in ((h, rs) # subs, s2))"

fun allocTasks :: "accountTaskJSON list \<Rightarrow> 'sch syncer \<Rightarrow> ref list \<times> 'sch syncer" where
  "allocTasks [] s = ([], s)"
| "allocTasks (j # js) s =
     (let (subs, s1) = allocSubTasks (SubTasksJSON j) s;
          r = nextRef s1;
          s2 = s1\<lparr>accountTaskAt := (accountTaskAt s1)
                     (r := \<lparr>Next = Next j, Last = Last j, req = None, done_flag = False,
                            SubTasks = subs, res = None, pend = 0, needCode = [],
                            needState = [], needHeal = [], codeTasks = [],
                            stateTasks = []\<rparr>),
                   nextRef := Suc r\<rparr>;
          (rs, s3) = allocTasks js s2
      in (r # rs, s3))"

definition chunkStep :: "nat \<Rightarrow> int" where
  "chunkStep concurrency = 2 ^ 256 div int concurrency - 1"

fun chunkAccounts :: "nat list \<Rightarrow> hash \<Rightarrow> 'sch syncer \<Rightarrow> 'sch syncer" where
  "chunkAccounts [] next s = s"
| "chunkAccounts (i # is) next s =
     (let last = BigToHash (Big next + chunkStep accountConcurrency);
          last = (if i = accountConcurrency - 1 then maxHash else last);
          r = nextRef s;
          s' = s\<lparr>tasks := tasks s @ [r],
                  accountTaskAt := (accountTaskAt s)
                    (r := \<lparr>Next = next, Last = last, req = None, done_flag = False,
                           SubTasks = [], res = None, pend = 0, needCode = [],
                           needState = [], needHeal = [], codeTasks = [],
                           stateTasks = []\<rparr>),
                  nextRef := Suc r\<rparr>
      in chunkAccounts is (BigToHash (Big last + 1)) s')"

definition loadSyncStatus :: "'sch syncer \<Rightarrow> 'sch syncer" where
  "loadSyncStatus s =
     (case syncStatus (db s) of
        Some (Encoded progress) \<Rightarrow>
          (let (ts, s1) = allocTasks (Tasks progress) s
           in s1\<lparr>tasks := ts,
                  snapped := (length ts = 0),
                  accountSynced := AccountSynced progress,
                  accountBytes := AccountBytes progress,
                  bytecodeSynced := BytecodeSynced progress,
                  bytecodeBytes := BytecodeBytes progress,
                  storageSynced := StorageSynced progress,
                  storageBytes := StorageBytes progress,
                  trienodeHealSynced := TrienodeHealSynced progress,
                  trienodeHealBytes := TrienodeHealBytes progress,
                  bytecodeHealSynced := BytecodeHealSynced progress,
                  bytecodeHealBytes := BytecodeHealBytes progress\<rparr>)
      | _ \<Rightarrow>
          chunkAccounts [0..<accountConcurrency] 0
            (s\<lparr>tasks := [],
               accountSynced := 0, accountBytes := 0,
               bytecodeSynced := 0, bytecodeBytes := 0,
               storageSynced := 0, storageBytes := 0,
               trienodeHealSynced := 0, trienodeHealBytes := 0,
               bytecodeHealSynced := 0, bytecodeHealBytes := 0\<rparr>))"

definition storageTaskJSON :: "'sch syncer \<Rightarrow> ref \<Rightarrow> interval" where
  "storageTaskJSON s r = \<lparr>Next = Next (storageTaskAt s r), Last = Last (storageTaskAt s r)\<rparr>"

definition taskJSON :: "'sch syncer \<Rightarrow> ref \<Rightarrow> accountTaskJSON" where
  "taskJSON s r =
     \<lparr>Next = Next (accountTaskAt s r), Last = Last (accountTaskAt s r),
      SubTasksJSON = map (\<lambda>(h, subs). (h, map (storageTaskJSON s) subs))
                         (SubTasks (accountTaskAt s r))\<rparr>"

definition saveSyncStatus :: "'sch syncer \<Rightarrow> 'sch syncer" where
  "saveSyncStatus s =
     (let progress =
            \<lparr>Tasks = map (taskJSON s) (tasks s),
             AccountSynced = accountSynced s,
             AccountBytes = accountBytes s,
             BytecodeSynced = bytecodeSynced s,
             BytecodeBytes = bytecodeBytes s,
             StorageSynced = storageSynced s,
             StorageBytes = storageBytes s,
             TrienodeHealSynced = trienodeHealSynced s,
             TrienodeHealBytes = trienodeHealBytes s,
             TrienodeHealDups = 0,
             TrienodeHealNops = 0,
             BytecodeHealSynced = bytecodeHealSynced s,
             BytecodeHealBytes = bytecodeHealBytes s,
             BytecodeHealDups = 0,
             BytecodeHealNops = 0\<rparr>
      in s\<lparr>db := (db s)\<lparr>syncStatus := Some (Encoded progress)\<rparr>\<rparr>)"

subsection \<open>Cleaning and forwarding account tasks\<close>

function cleanLoop :: "(ref \<Rightarrow> accountTask) \<Rightarrow> nat \<Rightarrow> ref list \<Rightarrow> ref list" where
  "cleanLoop h i ts =
     (if i < length ts
      then (if done_flag (h (ts ! i))
            then cleanLoop h i (take i ts @ drop (Suc i) ts)
            else cleanLoop h (Suc i) ts)
      else ts)"
  by pat_completeness auto
termination
  by (relation "measure (\<lambda>(h, i, ts). length ts - i)") auto

definition cleanAccountTasks :: "'sch syncer \<Rightarrow> 'sch syncer" where
  "cleanAccountTasks s =
     (let ts = cleanLoop (accountTaskAt s) 0 (tasks s);
          s1 = s\<lparr>tasks := ts\<rparr>
      in if length ts = 0 then s1\<lparr>snapped := True\<rparr> else s1)"

fun proveRange :: "accountResponse \<Rightarrow> nat list \<Rightarrow> hash set \<Rightarrow> error + hash set" where
  "proveRange r [] ns = Inr ns"
| "proveRange r (j # js) ns =
     (case index (accountResponse.hashes r) j of
        Inl e \<Rightarrow> Inl e
      | Inr h \<Rightarrow>
          (case trie r h of
             None \<Rightarrow> Inl PanicProve
           | Some ps \<Rightarrow> proveRange r js (ns \<union> set ps)))"

text \<open>\<open>needCode[i] || needState[i]\<close>: the second flag is read only when the first is false.\<close>

definition incomplete :: "accountTask \<Rightarrow> nat \<Rightarrow> error + bool" where
  "incomplete t i =
     (case index (needCode t) i of
        Inl e \<Rightarrow> Inl e
      | Inr nc \<Rightarrow> if nc then Inr True else index (needState t) i)"

fun incompletesLoop ::
  "accountTask \<Rightarrow> accountResponse \<Rightarrow> nat list \<Rightarrow> hash set \<Rightarrow> error + hash set" where
  "incompletesLoop t r [] inc = Inr inc"
| "incompletesLoop t r (i # is) inc =
     (case incomplete t i of
        Inl e \<Rightarrow> Inl e
      | Inr True \<Rightarrow> proveRange r [i..<length (accountResponse.accounts r)] inc
      | Inr False \<Rightarrow>
          (case index (needHeal t) i of
             Inl e \<Rightarrow> Inl e
           | Inr True \<Rightarrow>
               (case proveRange r [i] inc of
                  Inl e \<Rightarrow> Inl e
                | Inr inc' \<Rightarrow> incompletesLoop t r is inc')
           | Inr False \<Rightarrow> incompletesLoop t r is inc))"

definition HashLength :: nat where
  "HashLength = 32"

text \<open>The trie nodes a forward writes: all but boundary, overflow and incomplete ones.\<close>

definition persistNodes :: "accountResponse \<Rightarrow> hash set \<Rightarrow> (hash \<times> bytes) list" where
  "persistNodes r incompletes =
     filter (\<lambda>(k, v). k \<notin> accountResponse.bounds r \<and> k \<notin> accountResponse.overflow r
                      \<and> k \<notin> incompletes)
            (accountResponse.nodes r)"

fun snapshotAccounts ::
  "(account \<Rightarrow> bytes) \<Rightarrow> accountResponse \<Rightarrow> (nat \<times> hash) list \<Rightarrow>
   (dbkey \<times> bytes) list \<times> storageSize \<Rightarrow> error + (dbkey \<times> bytes) list \<times> storageSize" where
  "snapshotAccounts rlp r [] acc = Inr acc"
| "snapshotAccounts rlp r ((i, h) # rest) (batch, n) =
     (case index (accountResponse.accounts r) i of
        Inl e \<Rightarrow> Inl e
      | Inr a \<Rightarrow>
          snapshotAccounts rlp r rest
            (batch @ [(AccountSnapshotKey h, rlp a)], n + (1 + HashLength + length (rlp a))))"

text \<open>
  The cursor loop: the flag of the result tells whether the loop ran to its end
  (\<open>True\<close>) or returned at an account that still misses data (\<open>False\<close>).
\<close>

fun advanceNext :: "accountTask \<Rightarrow> (nat \<times> hash) list \<Rightarrow> error + accountTask \<times> bool" where
  "advanceNext t [] = Inr (t, True)"
| "advanceNext t ((i, h) # rest) =
     (case incomplete t i of
        Inl e \<Rightarrow> Inl e
      | Inr True \<Rightarrow> Inr (t, False)
      | Inr False \<Rightarrow> advanceNext (t\<lparr>Next := BigToHash (Big h + 1)\<rparr>) rest)"

text \<open>
  \<open>forwardBatch\<close> is the content of the database batch of one forward: the finalized
  trie nodes, then the flat account records; with it the number of bytes counted.
\<close>

definition forwardBatch ::
  "(account \<Rightarrow> bytes) \<Rightarrow> accountTask \<Rightarrow> accountResponse \<Rightarrow>
   error + (dbkey \<times> bytes) list \<times> storageSize" where
  "forwardBatch rlp t r =
     (case incompletesLoop t r [0..<length (accountResponse.accounts r)] {} of
        Inl e \<Rightarrow> Inl e
      | Inr incompletes \<Rightarrow>
          (let ns = persistNodes r incompletes
           in snapshotAccounts rlp r (enumerate 0 (accountResponse.hashes r))
                (map (\<lambda>(k, v). (TrieNodeKey k, v)) ns,
                 sum_list (map (\<lambda>(k, v). HashLength + length v) ns))))"

definition forwardAccountTask ::
  "(account \<Rightarrow> bytes) \<Rightarrow> ref \<Rightarrow> 'sch syncer \<Rightarrow> error + 'sch syncer" where
  "forwardAccountTask rlp tr s =
     (let t = accountTaskAt s tr in
      case res t of
        None \<Rightarrow> Inr s
      | Some r \<Rightarrow>
          (let t1 = t\<lparr>res := None\<rparr> in
           case forwardBatch rlp t1 r of
             Inl e \<Rightarrow> Inl e
           | Inr (batch, n) \<Rightarrow>
               (let s1 = s\<lparr>db := batchWrite batch (db s),
                            accountBytes := accountBytes s + n,
                            accountSynced := accountSynced s
                               + of_nat (length (accountResponse.accounts r))\<rparr>
                in case advanceNext t1 (enumerate 0 (accountResponse.hashes r)) of
                     Inl e \<Rightarrow> Inl e
                   | Inr (t2, finished) \<Rightarrow>
                       (let t3 = (if finished then t2\<lparr>done_flag := \<not> accountResponse.cont r\<rparr>
                                  else t2)
                        in Inr (s1\<lparr>accountTaskAt := (accountTaskAt s1)(tr := t3)\<rparr>)))))"

subsection \<open>Revert protocol\<close>

text \<open>
  \<open>scheduleRevert...\<close> is a select over a send to the class's failure channel, the
  cycle's cancel signal and the request's stale signal. The model sends when neither
  signal is closed and gives up otherwise.
\<close>

definition scheduleRevertAccountRequest :: "ref \<Rightarrow> 'sch syncer \<Rightarrow> 'sch syncer" where
  "scheduleRevertAccountRequest r s =
     (let q = accountRequestAt s r in
      if chanAt s (cancel q) = Closed \<or> stale q = Closed then s
      else s\<lparr>accountReqFails := accountReqFails s @ [r]\<rparr>)"

definition revertAccountRequest :: "ref \<Rightarrow> 'sch syncer \<Rightarrow> error + 'sch syncer" where
  "revertAccountRequest r s =
     (let q = accountRequestAt s r in
      if stale q = Closed then Inr s
      else
        case close (stale q) of
          Inl e \<Rightarrow> Inl e
        | Inr c \<Rightarrow>
            (let s1 = s\<lparr>accountReqs := (accountReqs s)(id_req q := None)\<rparr>;
                 q1 = q\<lparr>stale := c, timeout := snd (Stop (timeout q))\<rparr>;
                 s2 = s1\<lparr>accountRequestAt := (accountRequestAt s1)(r := q1)\<rparr>;
                 tr = accountRequest.task q;
                 t = accountTaskAt s2 tr
             in if req t = Some r
                then Inr (s2\<lparr>accountTaskAt := (accountTaskAt s2)(tr := t\<lparr>req := None\<rparr>)\<rparr>)
                else Inr s2))"

definition scheduleRevertBytecodeRequest :: "ref \<Rightarrow> 'sch syncer \<Rightarrow> 'sch syncer" where
  "scheduleRevertBytecodeRequest r s =
     (let q = bytecodeRequestAt s r in
      if chanAt s (cancel q) = Closed \<or> stale q = Closed then s
      else s\<lparr>bytecodeReqFails := bytecodeReqFails s @ [r]\<rparr>)"

definition revertBytecodeRequest :: "ref \<Rightarrow> 'sch syncer \<Rightarrow> error + 'sch syncer" where
  "revertBytecodeRequest r s =
     (let q = bytecodeRequestAt s r in
      if stale q = Closed then Inr s
      else
        case close (stale q) of
          Inl e \<Rightarrow> Inl e
        | Inr c \<Rightarrow>
            (let s1 = s\<lparr>bytecodeReqs := (bytecodeReqs s)(id_req q := None)\<rparr>;
                 q1 = q\<lparr>stale := c, timeout := snd (Stop (timeout q))\<rparr>;
                 s2 = s1\<lparr>bytecodeRequestAt := (bytecodeRequestAt s1)(r := q1)\<rparr>;
                 tr = bytecodeRequest.task q;
                 t = accountTaskAt s2 tr
             in Inr (s2\<lparr>accountTaskAt := (accountTaskAt s2)
                      (tr := t\<lparr>codeTasks := fold List.insert (bytecodeRequest.hashes q)
                                                (codeTasks t)\<rparr>)\<rparr>)))"

definition scheduleRevertStorageRequest :: "ref \<Rightarrow> 'sch syncer \<Rightarrow> 'sch syncer" where
  "scheduleRevertStorageRequest r s =
     (let q = storageRequestAt s r in
      if chanAt s (cancel q) = Closed \<or> stale q = Closed then s
      else s\<lparr>storageReqFails := storageReqFails s @ [r]\<rparr>)"

text \<open>\<open>m[keys[i]] = values[i]\<close> for every index of \<open>keys\<close>.\<close>

fun putAll :: "(nat \<times> 'k) list \<Rightarrow> 'v list \<Rightarrow> ('k \<times> 'v) list \<Rightarrow> error + ('k \<times> 'v) list" where
  "putAll [] vs m = Inr m"
| "putAll ((i, k) # rest) vs m =
     (case index vs i of
        Inl e \<Rightarrow> Inl e
      | Inr v \<Rightarrow> putAll rest vs (AList.update k v m))"

definition revertStorageRequest :: "ref \<Rightarrow> 'sch syncer \<Rightarrow> error + 'sch syncer" where
  "revertStorageRequest r s =
     (let q = storageRequestAt s r in
      if stale q = Closed then Inr s
      else
        case close (stale q) of
          Inl e \<Rightarrow> Inl e
        | Inr c \<Rightarrow>
            (let s1 = s\<lparr>storageReqs := (storageReqs s)(id_req q := None)\<rparr>;
                 q1 = q\<lparr>stale := c, timeout := snd (Stop (timeout q))\<rparr>;
                 s2 = s1\<lparr>storageRequestAt := (storageRequestAt s1)(r := q1)\<rparr>
             in case storageRequest.subTask q of
                  Some st \<Rightarrow>
                    Inr (s2\<lparr>storageTaskAt := (storageTaskAt s2)
                           (st := (storageTaskAt s2 st)\<lparr>req := None\<rparr>)\<rparr>)
                | None \<Rightarrow>
                    (let tr = storageRequest.mainTask q;
                         t = accountTaskAt s2 tr
                     in case putAll (enumerate 0 (storageRequest.accounts q))
                               (storageRequest.roots q) (stateTasks t) of
                          Inl e \<Rightarrow> Inl e
                        | Inr m \<Rightarrow>
                            Inr (s2\<lparr>accountTaskAt := (accountTaskAt s2)
                                   (tr := t\<lparr>stateTasks := m\<rparr>)\<rparr>))))"

definition scheduleRevertTrienodeHealRequest :: "ref \<Rightarrow> 'sch syncer \<Rightarrow> 'sch syncer" where
  "scheduleRevertTrienodeHealRequest r s =
     (let q = trienodeHealRequestAt s r in
      if chanAt s (cancel q) = Closed \<or> stale q = Closed then s
      else s\<lparr>trienodeHealReqFails := trienodeHealReqFails s @ [r]\<rparr>)"

definition revertTrienodeHealRequest :: "ref \<Rightarrow> 'sch syncer \<Rightarrow> error + 'sch syncer" where
  "revertTrienodeHealRequest r s =
     (let q = trienodeHealRequestAt s r in
      if stale q = Closed then Inr s
      else
        case close (stale q) of
          Inl e \<Rightarrow> Inl e
        | Inr c \<Rightarrow>
            (let s1 = s\<lparr>trienodeHealReqs := (trienodeHealReqs s)(id_req q := None)\<rparr>;
                 q1 = q\<lparr>stale := c, timeout := snd (Stop (timeout q))\<rparr>;
                 s2 = s1\<lparr>trienodeHealRequestAt := (trienodeHealRequestAt s1)(r := q1)\<rparr>;
                 tr = trienodeHealRequest.task q;
                 t = healTaskAt s2 tr
             in case putAll (enumerate 0 (trienodeHealRequest.hashes q))
                       (trienodeHealRequest.paths q) (trieTasks t) of
                  Inl e \<Rightarrow> Inl e
                | Inr m \<Rightarrow>
                    Inr (s2\<lparr>healTaskAt := (healTaskAt s2)(tr := t\<lparr>trieTasks := m\<rparr>)\<rparr>)))"

definition scheduleRevertBytecodeHealRequest :: "ref \<Rightarrow> 'sch syncer \<Rightarrow> 'sch syncer" where
  "scheduleRevertBytecodeHealRequest r s =
     (let q = bytecodeHealRequestAt s r in
      if chanAt s (cancel q) = Closed \<or> stale q = Closed then s
      else s\<lparr>bytecodeHealReqFails := bytecodeHealReqFails s @ [r]\<rparr>)"

definition revertBytecodeHealRequest :: "ref \<Rightarrow> 'sch syncer \<Rightarrow> error + 'sch syncer" where
  "revertBytecodeHealRequest r s =
     (let q = bytecodeHealRequestAt s r in
      if stale q = Closed then Inr s
      else
        case close (stale q) of
          Inl e \<Rightarrow> Inl e
        | Inr c \<Rightarrow>
            (let s1 = s\<lparr>bytecodeHealReqs := (bytecodeHealReqs s)(id_req q := None)\<rparr>;
                 q1 = q\<lparr>stale := c, timeout := snd (Stop (timeout q))\<rparr>;
                 s2 = s1\<lparr>bytecodeHealRequestAt := (bytecodeHealRequestAt s1)(r := q1)\<rparr>;
                 tr = bytecodeHealRequest.task q;
                 t = healTaskAt s2 tr
             in Inr (s2\<lparr>healTaskAt := (healTaskAt s2)
                      (tr := t\<lparr>healCodeTasks := fold List.insert (bytecodeHealRequest.hashes q)
                                                    (healCodeTasks t)\<rparr>)\<rparr>)))"

subsection \<open>Request scheduler\<close>

text \<open>
  The id loop of every assigner: draw until the value is not zero and not the id of a
  live request of the class. \<open>None\<close>: the supplied values ran out.
\<close>

fun pickReqid :: "uint64 list \<Rightarrow> (uint64 \<rightharpoonup> ref) \<Rightarrow> (uint64 \<times> uint64 list) option" where
  "pickReqid [] live = None"
| "pickReqid (x # xs) live =
     (if x = 0 then pickReqid xs live
      else if live x \<noteq> None then pickReqid xs live
      else Some (x, xs))"

text \<open>
  Draining a queue into a request: every entry visited is deleted and appended, and
  the loop stops once the request holds \<open>n\<close> entries. The result is the queue that is
  left and the entries taken.
\<close>

fun drain :: "nat \<Rightarrow> 'a list \<Rightarrow> 'a list \<Rightarrow> 'a list \<times> 'a list" where
  "drain n [] acc = ([], acc)"
| "drain n (x # xs) acc =
     (let acc' = acc @ [x]
      in if length acc' \<ge> n then (xs, acc') else drain n xs acc')"

fun assignAccountLoop ::
  "ref \<Rightarrow> ref list \<Rightarrow> uint64 list \<Rightarrow> 'sch syncer \<Rightarrow> ('sch syncer \<times> uint64 list) option" where
  "assignAccountLoop cancelc [] rands s = Some (s, rands)"
| "assignAccountLoop cancelc (tr # trs) rands s =
     (let t = accountTaskAt s tr in
      if req t \<noteq> None \<or> res t \<noteq> None then assignAccountLoop cancelc trs rands s
      else
        (let idle = findIdle (accountIdlers s) (statelessPeers s) in
         if idle = [] then Some (s, rands)
         else
           case pickReqid rands (accountReqs s) of
             None \<Rightarrow> None
           | Some (reqid, rands') \<Rightarrow>
               (let r = nextRef s;
                    q = \<lparr>peer = idle, id_req = reqid, cancel = cancelc, timeout = Armed,
                         stale = Open, accountRequest.origin = Next t,
                         accountRequest.limit = Last t, accountRequest.task = tr\<rparr>;
                    s1 = s\<lparr>accountRequestAt := (accountRequestAt s)(r := q),
                            nextRef := Suc r,
                            accountReqs := (accountReqs s)(reqid \<mapsto> r),
                            accountIdlers := removeAll idle (accountIdlers s),
                            accountTaskAt := (accountTaskAt s)(tr := t\<lparr>req := Some r\<rparr>)\<rparr>
                in assignAccountLoop cancelc trs rands' s1)))"

definition assignAccountTasks ::
  "ref \<Rightarrow> uint64 list \<Rightarrow> 'sch syncer \<Rightarrow> ('sch syncer \<times> uint64 list) option" where
  "assignAccountTasks cancelc rands s =
     (if length (accountIdlers s) = 0 then Some (s, rands)
      else assignAccountLoop cancelc (tasks s) rands s)"

fun assignBytecodeLoop ::
  "ref \<Rightarrow> ref list \<Rightarrow> uint64 list \<Rightarrow> 'sch syncer \<Rightarrow> ('sch syncer \<times> uint64 list) option" where
  "assignBytecodeLoop cancelc [] rands s = Some (s, rands)"
| "assignBytecodeLoop cancelc (tr # trs) rands s =
     (let t = accountTaskAt s tr in
      if res t = None then assignBytecodeLoop cancelc trs rands s
      else if length (codeTasks t) = 0 then assignBytecodeLoop cancelc trs rands s
      else
        (let idle = findIdle (bytecodeIdlers s) (statelessPeers s) in
         if idle = [] then Some (s, rands)
         else
           case pickReqid rands (bytecodeReqs s) of
             None \<Rightarrow> None
           | Some (reqid, rands') \<Rightarrow>
               (let (left, taken) = drain maxCodeRequestCount (codeTasks t) [];
                    r = nextRef s;
                    q = \<lparr>peer = idle, id_req = reqid, cancel = cancelc, timeout = Armed,
                         stale = Open, bytecodeRequest.hashes = taken,
                         bytecodeRequest.task = tr\<rparr>;
                    s1 = s\<lparr>bytecodeRequestAt := (bytecodeRequestAt s)(r := q),
                            nextRef := Suc r,
                            bytecodeReqs := (bytecodeReqs s)(reqid \<mapsto> r),
                            bytecodeIdlers := removeAll idle (bytecodeIdlers s),
                            accountTaskAt := (accountTaskAt s)(tr := t\<lparr>codeTasks := left\<rparr>)\<rparr>
                in assignBytecodeLoop cancelc trs rands' s1)))"

definition assignBytecodeTasks ::
  "ref \<Rightarrow> uint64 list \<Rightarrow> 'sch syncer \<Rightarrow> ('sch syncer \<times> uint64 list) option" where
  "assignBytecodeTasks cancelc rands s =
     (if length (bytecodeIdlers s) = 0 then Some (s, rands)
      else assignBytecodeLoop cancelc (tasks s) rands s)"

text \<open>The first large-contract chunk that no request is filling, with its account.\<close>

fun findSubTask :: "(ref \<Rightarrow> storageTask) \<Rightarrow> (hash \<times> ref list) list \<Rightarrow> (hash \<times> ref) option" where
  "findSubTask h [] = None"
| "findSubTask h ((a, subs) # rest) =
     (case find (\<lambda>st. req (h st) = None) subs of
        Some st \<Rightarrow> Some (a, st)
      | None \<Rightarrow> findSubTask h rest)"

fun assignStorageLoop ::
  "ref \<Rightarrow> ref list \<Rightarrow> uint64 list \<Rightarrow> 'sch syncer \<Rightarrow> ('sch syncer \<times> uint64 list) option" where
  "assignStorageLoop cancelc [] rands s = Some (s, rands)"
| "assignStorageLoop cancelc (tr # trs) rands s =
     (let t = accountTaskAt s tr in
      if res t = None then assignStorageLoop cancelc trs rands s
      else if length (SubTasks t) = 0 \<and> length (stateTasks t) = 0
      then assignStorageLoop cancelc trs rands s
      else
        (let idle = findIdle (storageIdlers s) (statelessPeers s) in
         if idle = [] then Some (s, rands)
         else
           case pickReqid rands (storageReqs s) of
             None \<Rightarrow> None
           | Some (reqid, rands') \<Rightarrow>
               (let sub = findSubTask (storageTaskAt s) (SubTasks t);
                    (left, taken) =
                       (case sub of
                          Some (a, st) \<Rightarrow> (stateTasks t, [(a, storageTask.root (storageTaskAt s st))])
                        | None \<Rightarrow> drain maxStorageSetRequestCount (stateTasks t) []);
                    s0 = s\<lparr>accountTaskAt := (accountTaskAt s)(tr := t\<lparr>stateTasks := left\<rparr>)\<rparr>
                in if length taken = 0 then assignStorageLoop cancelc trs rands' s0
                   else
                     (let r = nextRef s0;
                          q = \<lparr>peer = idle, id_req = reqid, cancel = cancelc, timeout = Armed,
                               stale = Open,
                               storageRequest.accounts = map fst taken,
                               storageRequest.roots = map snd taken,
                               storageRequest.origin =
                                 (case sub of Some (a, st) \<Rightarrow> Next (storageTaskAt s st) | None \<Rightarrow> 0),
                               storageRequest.limit =
                                 (case sub of Some (a, st) \<Rightarrow> Last (storageTaskAt s st) | None \<Rightarrow> 0),
                               storageRequest.mainTask = tr,
                               storageRequest.subTask = map_option snd sub\<rparr>;
                          s1 = s0\<lparr>storageRequestAt := (storageRequestAt s0)(r := q),
                                   nextRef := Suc r,
                                   storageReqs := (storageReqs s0)(reqid \<mapsto> r),
                                   storageIdlers := removeAll idle (storageIdlers s0)\<rparr>;
                          s2 = (case sub of
                                  Some (a, st) \<Rightarrow>
                                    s1\<lparr>storageTaskAt := (storageTaskAt s1)
                                         (st := (storageTaskAt s1 st)\<lparr>req := Some r\<rparr>)\<rparr>
                                | None \<Rightarrow> s1)
                      in assignStorageLoop cancelc trs rands' s2))))"

definition assignStorageTasks ::
  "ref \<Rightarrow> uint64 list \<Rightarrow> 'sch syncer \<Rightarrow> ('sch syncer \<times> uint64 list) option" where
  "assignStorageTasks cancelc rands s =
     (if length (storageIdlers s) = 0 then Some (s, rands)
      else assignStorageLoop cancelc (tasks s) rands s)"

text \<open>
  The state sync scheduler of the heal phase is a collaborator: \<open>Pending\<close> and
  \<open>Missing\<close> are parameters of the two heal assigners. \<open>Missing sch n\<close> returns the
  node hashes, their paths and the code hashes it hands out, and the scheduler after
  the call.
\<close>

type_synonym 'sch missing = "'sch \<Rightarrow> nat \<Rightarrow> (hash list \<times> syncPath list \<times> hash list) \<times> 'sch"

definition refillHealer :: "'sch missing \<Rightarrow> 'sch syncer \<Rightarrow> error + 'sch syncer" where
  "refillHealer Missing s =
     (let ht = healTaskAt s (healer s);
          queued = length (trieTasks ht) + length (healCodeTasks ht);
          want = maxTrieRequestCount + maxCodeRequestCount
      in if queued < want
         then
           (case Missing (scheduler ht) (want - queued) of
              ((ns, ps, cs), sch') \<Rightarrow>
                (case putAll (enumerate 0 ns) ps (trieTasks ht) of
                   Inl e \<Rightarrow> Inl e
                 | Inr m \<Rightarrow>
                     Inr (s\<lparr>healTaskAt := (healTaskAt s)
                            (healer s := ht\<lparr>scheduler := sch', trieTasks := m,
                                             healCodeTasks := fold List.insert cs
                                                                (healCodeTasks ht)\<rparr>)\<rparr>)))
         else Inr s)"

lemma findIdle_mem:
  assumes "findIdle idlers stateless \<noteq> []"
  shows "findIdle idlers stateless \<in> set idlers"
proof (cases "find (\<lambda>pid. pid \<notin> stateless) idlers")
  case None
  with assms show ?thesis by (simp add: findIdle_def)
next
  case (Some pid)
  then have "pid \<in> set idlers"
    by (auto simp: find_Some_iff)
  with Some show ?thesis by (simp add: findIdle_def)
qed

lemma length_removeAll_less: "x \<in> set xs \<Longrightarrow> length (removeAll x xs) < length xs"
  by (induction xs) (auto simp: less_Suc_eq_le length_removeAll_less_eq)

lemma refillHealer_trienodeHealIdlers:
  "refillHealer Missing s = Inr s' \<Longrightarrow> trienodeHealIdlers s' = trienodeHealIdlers s"
  by (auto simp: refillHealer_def Let_def split: if_splits prod.splits sum.splits)

lemma refillHealer_bytecodeHealIdlers:
  "refillHealer Missing s = Inr s' \<Longrightarrow> bytecodeHealIdlers s' = bytecodeHealIdlers s"
  by (auto simp: refillHealer_def Let_def split: if_splits prod.splits sum.splits)

lemma refillHealer_statelessPeers:
  "refillHealer Missing s = Inr s' \<Longrightarrow> statelessPeers s' = statelessPeers s"
  by (auto simp: refillHealer_def Let_def split: if_splits prod.splits sum.splits)

function assignTrienodeHealLoop ::
  "('sch \<Rightarrow> nat) \<Rightarrow> 'sch missing \<Rightarrow> ref \<Rightarrow> uint64 list \<Rightarrow> 'sch syncer \<Rightarrow>
   (error + 'sch syncer \<times> uint64 list) option" where
  "assignTrienodeHealLoop Pending Missing cancelc rands s =
     (if \<not> (length (trieTasks (healTaskAt s (healer s))) > 0
             \<or> Pending (scheduler (healTaskAt s (healer s))) > 0)
      then Some (Inr (s, rands))
      else
        case refillHealer Missing s of
          Inl e \<Rightarrow> Some (Inl e)
        | Inr s1 \<Rightarrow>
            if length (trieTasks (healTaskAt s1 (healer s1))) = 0 then Some (Inr (s1, rands))
            else if findIdle (trienodeHealIdlers s1) (statelessPeers s1) = []
            then Some (Inr (s1, rands))
            else
              case pickReqid rands (trienodeHealReqs s1) of
                None \<Rightarrow> None
              | Some (reqid, rands') \<Rightarrow>
                  assignTrienodeHealLoop Pending Missing cancelc rands'
                    (let idle = findIdle (trienodeHealIdlers s1) (statelessPeers s1);
                         ht = healTaskAt s1 (healer s1);
                         (left, taken) = drain maxTrieRequestCount (trieTasks ht) [];
                         r = nextRef s1;
                         q = \<lparr>peer = idle, id_req = reqid, cancel = cancelc, timeout = Armed,
                              stale = Open,
                              trienodeHealRequest.hashes = map fst taken,
                              trienodeHealRequest.paths = map snd taken,
                              trienodeHealRequest.task = healer s1\<rparr>
                     in s1\<lparr>trienodeHealRequestAt := (trienodeHealRequestAt s1)(r := q),
                            nextRef := Suc r,
                            trienodeHealReqs := (trienodeHealReqs s1)(reqid \<mapsto> r),
                            trienodeHealIdlers :=
                              removeAll idle (trienodeHealIdlers s1),
                            healTaskAt := (healTaskAt s1)
                              (healer s1 := ht\<lparr>trieTasks := left\<rparr>)\<rparr>))"
  by pat_completeness auto
termination
  apply (relation "measure (\<lambda>(P, M, c, rands, s). length (trienodeHealIdlers s))")
   apply simp
  apply (auto simp: Let_def split: prod.splits dest!: refillHealer_trienodeHealIdlers
              intro!: length_removeAll_less findIdle_mem)
  done

definition assignTrienodeHealTasks ::
  "('sch \<Rightarrow> nat) \<Rightarrow> 'sch missing \<Rightarrow> ref \<Rightarrow> uint64 list \<Rightarrow> 'sch syncer \<Rightarrow>
   (error + 'sch syncer \<times> uint64 list) option" where
  "assignTrienodeHealTasks Pending Missing cancelc rands s =
     (if length (trienodeHealIdlers s) = 0 then Some (Inr (s, rands))
      else assignTrienodeHealLoop Pending Missing cancelc rands s)"

function assignBytecodeHealLoop ::
  "('sch \<Rightarrow> nat) \<Rightarrow> 'sch missing \<Rightarrow> ref \<Rightarrow> uint64 list \<Rightarrow> 'sch syncer \<Rightarrow>
   (error + 'sch syncer \<times> uint64 list) option" where
  "assignBytecodeHealLoop Pending Missing cancelc rands s =
     (if \<not> (length (healCodeTasks (healTaskAt s (healer s))) > 0
             \<or> Pending (scheduler (healTaskAt s (healer s))) > 0)
      then Some (Inr (s, rands))
      else
        case refillHealer Missing s of
          Inl e \<Rightarrow> Some (Inl e)
        | Inr s1 \<Rightarrow>
            if length (healCodeTasks (healTaskAt s1 (healer s1))) = 0 then Some (Inr (s1, rands))
            else if findIdle (bytecodeHealIdlers s1) (statelessPeers s1) = []
            then Some (Inr (s1, rands))
            else
              case pickReqid rands (bytecodeHealReqs s1) of
                None \<Rightarrow> None
              | Some (reqid, rands') \<Rightarrow>
                  assignBytecodeHealLoop Pending Missing cancelc rands'
                    (let idle = findIdle (bytecodeHealIdlers s1) (statelessPeers s1);
                         ht = healTaskAt s1 (healer s1);
                         (left, taken) = drain maxCodeRequestCount (healCodeTasks ht) [];
                         r = nextRef s1;
                         q = \<lparr>peer = idle, id_req = reqid, cancel = cancelc, timeout = Armed,
                              stale = Open,
                              bytecodeHealRequest.hashes = taken,
                              bytecodeHealRequest.task = healer s1\<rparr>
                     in s1\<lparr>bytecodeHealRequestAt := (bytecodeHealRequestAt s1)(r := q),
                            nextRef := Suc r,
                            bytecodeHealReqs := (bytecodeHealReqs s1)(reqid \<mapsto> r),
                            bytecodeHealIdlers :=
                              removeAll idle (bytecodeHealIdlers s1),
                            healTaskAt := (healTaskAt s1)
                              (healer s1 := ht\<lparr>healCodeTasks := left\<rparr>)\<rparr>))"
  by pat_completeness auto
termination
  apply (relation "measure (\<lambda>(P, M, c, rands, s). length (bytecodeHealIdlers s))")
   apply simp
  apply (auto simp: Let_def split: prod.splits dest!: refillHealer_bytecodeHealIdlers
              intro!: length_removeAll_less findIdle_mem)
  done

definition assignBytecodeHealTasks ::
  "('sch \<Rightarrow> nat) \<Rightarrow> 'sch missing \<Rightarrow> ref \<Rightarrow> uint64 list \<Rightarrow> 'sch syncer \<Rightarrow>
   (error + 'sch syncer \<times> uint64 list) option" where
  "assignBytecodeHealTasks Pending Missing cancelc rands s =
     (if length (bytecodeHealIdlers s) = 0 then Some (Inr (s, rands))
      else assignBytecodeHealLoop Pending Missing cancelc rands s)"

subsection \<open>Response integrators\<close>

fun proveAll :: "trie \<Rightarrow> hash list \<Rightarrow> hash set \<Rightarrow> error + hash set" where
  "proveAll tr [] ns = Inr ns"
| "proveAll tr (h # hs) ns =
     (case tr h of
        None \<Rightarrow> Inl PanicProve
      | Some ps \<Rightarrow> proveAll tr hs (ns \<union> set ps))"

text \<open>
  The overflow check of an account response: \<open>i\<close> is the index of the first hash of
  \<open>hs\<close>, the part of the delivered hashes still to visit.
\<close>

fun trimAccounts ::
  "hash \<Rightarrow> nat \<Rightarrow> hash list \<Rightarrow> accountResponse \<Rightarrow> error + accountResponse" where
  "trimAccounts lastH i [] r = Inr r"
| "trimAccounts lastH i (h # hs) r =
     (if Big h = Big lastH then trimAccounts lastH (Suc i) hs (r\<lparr>accountResponse.cont := False\<rparr>)
      else if Big h > Big lastH then
        (case proveAll (trie r) (h # hs) (accountResponse.overflow r) of
           Inl e \<Rightarrow> Inl e
         | Inr ov \<Rightarrow>
             Inr (r\<lparr>accountResponse.overflow := ov,
                    accountResponse.hashes := take i (accountResponse.hashes r),
                    accountResponse.accounts := take i (accountResponse.accounts r),
                    accountResponse.cont := False\<rparr>))
      else trimAccounts lastH (Suc i) hs r)"

text \<open>
  The body of the loop over the delivered accounts, for the account at index \<open>i\<close>. It
  fills the task's flags and queues, updates the root of resumed storage chunks, and
  collects the accounts it resumed.
\<close>

definition fillStep ::
  "accountResponse \<Rightarrow> ref \<Rightarrow> nat \<Rightarrow> account \<Rightarrow> hash set \<Rightarrow> 'sch syncer \<Rightarrow>
   error + hash set \<times> 'sch syncer" where
  "fillStep r tr i a resumed s =
     (let t = accountTaskAt s tr;
          t1 = (if CodeHash a \<noteq> hashBytes emptyCode
                   \<and> kv (db s) (CodeKey (BytesToHash (CodeHash a))) = None
                then t\<lparr>codeTasks := List.insert (BytesToHash (CodeHash a)) (codeTasks t),
                       needCode := (needCode t)[i := True],
                       pend := pend t + 1\<rparr>
                else t)
      in if Root a \<noteq> emptyRoot \<and> kv (db s) (TrieNodeKey (Root a)) = None
         then
           (case index (accountResponse.hashes r) i of
              Inl e \<Rightarrow> Inl e
            | Inr h \<Rightarrow>
                (case map_of (SubTasks t1) h of
                   Some subs \<Rightarrow>
                     Inr (insert h resumed,
                          s\<lparr>storageTaskAt :=
                               fold (\<lambda>st m. m(st := (m st)\<lparr>storageTask.root := Root a\<rparr>))
                                    subs (storageTaskAt s),
                             accountTaskAt := (accountTaskAt s)
                               (tr := t1\<lparr>needHeal := (needHeal t1)[i := True],
                                         needState := (needState t1)[i := True],
                                         pend := pend t1 + 1\<rparr>)\<rparr>)
                 | None \<Rightarrow>
                     Inr (resumed,
                          s\<lparr>accountTaskAt := (accountTaskAt s)
                               (tr := t1\<lparr>stateTasks := AList.update h (Root a) (stateTasks t1),
                                         needState := (needState t1)[i := True],
                                         pend := pend t1 + 1\<rparr>)\<rparr>)))
         else Inr (resumed, s\<lparr>accountTaskAt := (accountTaskAt s)(tr := t1)\<rparr>))"

fun fillAccounts ::
  "accountResponse \<Rightarrow> ref \<Rightarrow> (nat \<times> account) list \<Rightarrow> hash set \<Rightarrow> 'sch syncer \<Rightarrow>
   error + hash set \<times> 'sch syncer" where
  "fillAccounts r tr [] resumed s = Inr (resumed, s)"
| "fillAccounts r tr ((i, a) # rest) resumed s =
     (case fillStep r tr i a resumed s of
        Inl e \<Rightarrow> Inl e
      | Inr (resumed1, s1) \<Rightarrow> fillAccounts r tr rest resumed1 s1)"

definition processAccountResponse ::
  "(account \<Rightarrow> bytes) \<Rightarrow> accountResponse \<Rightarrow> 'sch syncer \<Rightarrow> error + 'sch syncer" where
  "processAccountResponse rlp r0 s =
     (let tr = accountResponse.task r0;
          t0 = accountTaskAt s tr
      in case trimAccounts (Last t0) 0 (accountResponse.hashes r0) r0 of
           Inl e \<Rightarrow> Inl e
         | Inr r \<Rightarrow>
             (let n = length (accountResponse.accounts r);
                  t1 = t0\<lparr>req := None, res := Some r,
                          needCode := replicate n False,
                          needState := replicate n False,
                          needHeal := replicate n False,
                          codeTasks := [], stateTasks := [], pend := 0\<rparr>;
                  s1 = s\<lparr>accountTaskAt := (accountTaskAt s)(tr := t1)\<rparr>
              in case fillAccounts r tr (enumerate 0 (accountResponse.accounts r)) {} s1 of
                   Inl e \<Rightarrow> Inl e
                 | Inr (resumed, s2) \<Rightarrow>
                     (let t2 = accountTaskAt s2 tr;
                          t3 = t2\<lparr>SubTasks := filter (\<lambda>(h, subs). h \<in> resumed) (SubTasks t2)\<rparr>;
                          s3 = s2\<lparr>accountTaskAt := (accountTaskAt s2)(tr := t3)\<rparr>
                      in if pend t3 = 0 then forwardAccountTask rlp tr s3 else Inr s3)))"

text \<open>The \<open>storageConcurrency\<close> chunks of a large contract, allocated in order.\<close>

fun chunkStorage :: "nat list \<Rightarrow> hash \<Rightarrow> hash \<Rightarrow> 'sch syncer \<Rightarrow> ref list \<times> 'sch syncer" where
  "chunkStorage [] next rt s = ([], s)"
| "chunkStorage (k # ks) next rt s =
     (let last = BigToHash (Big next + chunkStep storageConcurrency);
          last = (if k = storageConcurrency - 1 then maxHash else last);
          r = nextRef s;
          s' = s\<lparr>storageTaskAt := (storageTaskAt s)
                    (r := \<lparr>Next = next, Last = last, req = None, done_flag = False,
                           storageTask.root = rt\<rparr>),
                  nextRef := Suc r\<rparr>;
          (rs, s'') = chunkStorage ks (BigToHash (Big last + 1)) rt s'
      in (r # rs, s''))"

text \<open>
  The overflow check of a storage response against the chunk being filled: \<open>i\<close> is the
  account's index in the response, \<open>k\<close> the index of the first hash of \<open>hs\<close>.
\<close>

fun trimSlots ::
  "hash \<Rightarrow> nat \<Rightarrow> nat \<Rightarrow> hash list \<Rightarrow> storageResponse \<Rightarrow> error + storageResponse" where
  "trimSlots lastH i k [] r = Inr r"
| "trimSlots lastH i k (h # hs) r =
     (if Big h = Big lastH then trimSlots lastH i (Suc k) hs (r\<lparr>storageResponse.cont := False\<rparr>)
      else if Big h > Big lastH then
        (case index (tries r) i of
           Inl e \<Rightarrow> Inl e
         | Inr tr \<Rightarrow>
             (case proveAll tr (h # hs) (storageResponse.overflow r) of
                Inl e \<Rightarrow> Inl e
              | Inr ov \<Rightarrow>
                  (case index (slots r) i of
                     Inl e \<Rightarrow> Inl e
                   | Inr sl \<Rightarrow>
                       Inr (r\<lparr>storageResponse.overflow := ov,
                              storageResponse.hashes :=
                                (storageResponse.hashes r)[i := take k (storageResponse.hashes r ! i)],
                              slots := (slots r)[i := take k sl],
                              storageResponse.cont := False\<rparr>))))
      else trimSlots lastH i (Suc k) hs r)"

text \<open>
  The storage integrator, for the account at index \<open>i\<close> of the response and a
  matching entry \<open>j\<close> of the main task's delivered accounts. \<open>markDelivered\<close> is the
  bookkeeping of the two flags; both flags are read only for a response that did not
  come from a large-contract chunk.
\<close>

definition markDelivered :: "nat \<Rightarrow> nat \<Rightarrow> storageResponse \<Rightarrow> accountTask \<Rightarrow> error + accountTask" where
  "markDelivered i j r t =
     (if storageResponse.subTask r \<noteq> None then Inr t
      else
        case index (needState t) j of
          Inl e \<Rightarrow> Inl e
        | Inr ns \<Rightarrow>
            (let t1 = (if ns \<and> (Suc i < length (storageResponse.hashes r)
                                 \<or> \<not> storageResponse.cont r)
                       then t\<lparr>needState := (needState t)[j := False], pend := pend t - 1\<rparr>
                       else t)
             in case index (needHeal t1) j of
                  Inl e \<Rightarrow> Inl e
                | Inr nh \<Rightarrow>
                    Inr (if \<not> nh \<and> Suc i = length (storageResponse.hashes r)
                            \<and> storageResponse.cont r
                         then t1\<lparr>needHeal := (needHeal t1)[j := True]\<rparr>
                         else t1)))"

text \<open>
  Switching the last, chunked contract of a response to large-contract mode: unless
  the account has sub-tasks already, the chunks are created and the response is taken
  to fill the first of them.
\<close>

definition promote ::
  "nat \<Rightarrow> hash \<Rightarrow> account \<Rightarrow> storageResponse \<Rightarrow> 'sch syncer \<Rightarrow> storageResponse \<times> 'sch syncer" where
  "promote i a acc r s =
     (let tr = storageResponse.mainTask r in
      if storageResponse.subTask r = None \<and> Suc i = length (storageResponse.hashes r)
         \<and> storageResponse.cont r \<and> map_of (SubTasks (accountTaskAt s tr)) a = None
      then
        (let (subs, s1) = chunkStorage [0..<storageConcurrency] 0 (Root acc) s;
             t = accountTaskAt s1 tr
         in (r\<lparr>storageResponse.subTask := Some (hd subs)\<rparr>,
             s1\<lparr>accountTaskAt := (accountTaskAt s1)
                   (tr := t\<lparr>SubTasks := AList.update a subs (SubTasks t)\<rparr>)\<rparr>))
      else (r, s))"

text \<open>Forwarding the chunk a response fills: trim against its end, then move on or finish.\<close>

definition forwardSubTask ::
  "nat \<Rightarrow> storageResponse \<Rightarrow> 'sch syncer \<Rightarrow> error + storageResponse \<times> 'sch syncer" where
  "forwardSubTask i r s =
     (case storageResponse.subTask r of
        None \<Rightarrow> Inr (r, s)
      | Some st \<Rightarrow>
          (case trimSlots (Last (storageTaskAt s st)) i 0 (storageResponse.hashes r ! i) r of
             Inl e \<Rightarrow> Inl e
           | Inr r1 \<Rightarrow>
               if storageResponse.cont r1
               then
                 (if storageResponse.hashes r1 ! i = [] then Inl PanicIndexOutOfRange
                  else Inr (r1, s\<lparr>storageTaskAt := (storageTaskAt s)
                                   (st := (storageTaskAt s st)
                                      \<lparr>Next := BigToHash
                                          (Big (last (storageResponse.hashes r1 ! i)) + 1)\<rparr>)\<rparr>))
               else Inr (r1, s\<lparr>storageTaskAt := (storageTaskAt s)
                                (st := (storageTaskAt s st)\<lparr>done_flag := True\<rparr>)\<rparr>)))"

definition matchStep ::
  "nat \<Rightarrow> hash \<Rightarrow> accountResponse \<Rightarrow> nat \<Rightarrow> storageResponse \<Rightarrow> 'sch syncer \<Rightarrow>
   error + storageResponse \<times> 'sch syncer" where
  "matchStep i a mres j r s =
     (case index (accountResponse.accounts mres) j of
        Inl e \<Rightarrow> Inl e
      | Inr acc \<Rightarrow>
          (let tr = storageResponse.mainTask r in
           case markDelivered i j r (accountTaskAt s tr) of
             Inl e \<Rightarrow> Inl e
           | Inr t \<Rightarrow>
               (let (r1, s1) = promote i a acc r
                                 (s\<lparr>accountTaskAt := (accountTaskAt s)(tr := t)\<rparr>)
                in forwardSubTask i r1 s1)))"

fun matchAccounts ::
  "nat \<Rightarrow> hash \<Rightarrow> accountResponse \<Rightarrow> (nat \<times> hash) list \<Rightarrow> storageResponse \<Rightarrow> 'sch syncer \<Rightarrow>
   error + storageResponse \<times> 'sch syncer" where
  "matchAccounts i a mres [] r s = Inr (r, s)"
| "matchAccounts i a mres ((j, h) # rest) r s =
     (case (if a \<noteq> h then Inr (r, s) else matchStep i a mres j r s) of
        Inl e \<Rightarrow> Inl e
      | Inr (r1, s1) \<Rightarrow> matchAccounts i a mres rest r1 s1)"

text \<open>The trie nodes of one delivered contract that are written to the batch.\<close>

definition persistStorageNodes :: "nat \<Rightarrow> storageResponse \<Rightarrow> (hash \<times> bytes) list \<Rightarrow> (hash \<times> bytes) list" where
  "persistStorageNodes i r ns =
     filter (\<lambda>(k, v). \<not> (Suc i = length (storageResponse.hashes r)
                           \<and> storageResponse.subTask r \<noteq> None
                           \<and> (k \<in> storageResponse.bounds r \<or> k \<in> storageResponse.overflow r)))
            ns"

fun snapshotSlots ::
  "hash \<Rightarrow> bytes list \<Rightarrow> (nat \<times> hash) list \<Rightarrow> (dbkey \<times> bytes) list \<times> storageSize \<Rightarrow>
   error + (dbkey \<times> bytes) list \<times> storageSize" where
  "snapshotSlots a sl [] acc = Inr acc"
| "snapshotSlots a sl ((j, h) # rest) (batch, n) =
     (case index sl j of
        Inl e \<Rightarrow> Inl e
      | Inr v \<Rightarrow>
          snapshotSlots a sl rest
            (batch @ [(StorageSnapshotKey a h, v)], n + (1 + 2 * HashLength + length v)))"

text \<open>
  The loop state of \<open>processStorageResponse\<close>: the response (its chunk, hashes, slots,
  overflow set and continuation flag change on the way), the syncer, the batch, and
  the slot and byte counts.
\<close>

type_synonym 'sch storageAcc =
  "storageResponse \<times> 'sch syncer \<times> (dbkey \<times> bytes) list \<times> nat \<times> storageSize"

definition storageAccount :: "nat \<Rightarrow> hash \<Rightarrow> 'sch storageAcc \<Rightarrow> error + 'sch storageAcc" where
  "storageAccount i a st =
     (case st of (r, s, batch, slotsN, bytesN) \<Rightarrow>
        let tr = storageResponse.mainTask r in
        if i \<ge> length (storageResponse.hashes r)
        then
          (case index (storageResponse.roots r) i of
             Inl e \<Rightarrow> Inl e
           | Inr rt \<Rightarrow>
               Inr (r,
                    s\<lparr>accountTaskAt := (accountTaskAt s)
                        (tr := (accountTaskAt s tr)
                           \<lparr>stateTasks := AList.update a rt (stateTasks (accountTaskAt s tr))\<rparr>)\<rparr>,
                    batch, slotsN, bytesN))
        else
          (case res (accountTaskAt s tr) of
             None \<Rightarrow> Inl PanicNilDereference
           | Some mres \<Rightarrow>
               (case matchAccounts i a mres (enumerate 0 (accountResponse.hashes mres)) r s of
                  Inl e \<Rightarrow> Inl e
                | Inr (r1, s1) \<Rightarrow>
                    (case index (storageResponse.nodes r1) i of
                       Inl e \<Rightarrow> Inl e
                     | Inr ns \<Rightarrow>
                         (let kept = persistStorageNodes i r1 ns;
                              batch1 = batch @ map (\<lambda>(k, v). (TrieNodeKey k, v)) kept;
                              bytes1 = bytesN + sum_list (map (\<lambda>(k, v). HashLength + length v) kept)
                          in case index (slots r1) i of
                               Inl e \<Rightarrow>
                                 (if storageResponse.hashes r1 ! i = []
                                  then Inr (r1, s1, batch1, slotsN, bytes1)
                                  else Inl e)
                             | Inr sl \<Rightarrow>
                                 (case snapshotSlots a sl
                                         (enumerate 0 (storageResponse.hashes r1 ! i))
                                         (batch1, bytes1) of
                                    Inl e \<Rightarrow> Inl e
                                  | Inr (batch2, bytes2) \<Rightarrow>
                                      Inr (r1, s1, batch2,
                                           slotsN + length (storageResponse.hashes r1 ! i),
                                           bytes2)))))))"

fun storageLoop :: "(nat \<times> hash) list \<Rightarrow> 'sch storageAcc \<Rightarrow> error + 'sch storageAcc" where
  "storageLoop [] st = Inr st"
| "storageLoop ((i, a) # rest) st =
     (case storageAccount i a st of
        Inl e \<Rightarrow> Inl e
      | Inr st1 \<Rightarrow> storageLoop rest st1)"

definition processStorageResponse ::
  "(account \<Rightarrow> bytes) \<Rightarrow> storageResponse \<Rightarrow> 'sch syncer \<Rightarrow> error + 'sch syncer" where
  "processStorageResponse rlp r0 s =
     (let s0 = (case storageResponse.subTask r0 of
                  Some st \<Rightarrow> s\<lparr>storageTaskAt := (storageTaskAt s)
                                 (st := (storageTaskAt s st)\<lparr>req := None\<rparr>)\<rparr>
                | None \<Rightarrow> s)
      in case storageLoop (enumerate 0 (storageResponse.accounts r0)) (r0, s0, [], 0, 0) of
           Inl e \<Rightarrow> Inl e
         | Inr (r, s1, batch, slotsN, bytesN) \<Rightarrow>
             (let s2 = s1\<lparr>db := batchWrite batch (db s1),
                          storageSynced := storageSynced s1 + of_nat slotsN,
                          storageBytes := storageBytes s1 + bytesN\<rparr>;
                  tr = storageResponse.mainTask r
              in if pend (accountTaskAt s2 tr) = 0 then forwardAccountTask rlp tr s2
                 else Inr s2))"

subsection \<open>Delivery callbacks\<close>

text \<open>
  The callbacks run on the peer's thread. Range-proof verification, the decoding of
  the delivered accounts and Keccak-256 are collaborators and enter as parameters:
  \<open>verify root origin hashes accounts proof\<close> stands for \<open>trie.VerifyRangeProof\<close>
  followed by the collection of the boundary nodes and the decoding of the accounts;
  it yields the node database, the trie, the boundary set, the continuation flag and the
  accounts, or the proof error. A callback returns the error it hands to the caller
  (\<open>None\<close> for nil) and the syncer. Publishing a response is a select against the
  request's cancel and stale signals, modelled like the revert notification: the
  response is queued when neither signal is closed.
\<close>

type_synonym verifyAccounts =
  "hash \<Rightarrow> hash \<Rightarrow> hash list \<Rightarrow> bytes list \<Rightarrow> bytes list \<Rightarrow>
   error + (hash \<times> bytes) list \<times> trie \<times> hash set \<times> bool \<times> account list"

definition OnAccounts ::
  "verifyAccounts \<Rightarrow> peerID \<Rightarrow> uint64 \<Rightarrow> hash list \<Rightarrow> bytes list \<Rightarrow> bytes list \<Rightarrow> 'sch syncer \<Rightarrow>
   error option \<times> 'sch syncer" where
  "OnAccounts verify pid rid hs accs prf s =
     (let s1 = (if pid \<in> peers s
                then s\<lparr>accountIdlers := List.insert pid (accountIdlers s)\<rparr> else s)
               \<lparr>update := True\<rparr>
      in case accountReqs s1 rid of
           None \<Rightarrow> (None, s1)
         | Some r \<Rightarrow>
             (let q = accountRequestAt s1 r;
                  s2 = s1\<lparr>accountReqs := (accountReqs s1)(rid := None),
                          accountRequestAt := (accountRequestAt s1)
                            (r := q\<lparr>timeout := snd (Stop (timeout q))\<rparr>)\<rparr>
              in if \<not> fst (Stop (timeout q)) then (None, s2)
                 else if length hs = 0 \<and> length accs = 0 \<and> length prf = 0
                 then (None, scheduleRevertAccountRequest r
                               (s2\<lparr>statelessPeers := insert pid (statelessPeers s2)\<rparr>))
                 else
                   case verify (syncer.root s2) (accountRequest.origin q) hs accs prf of
                     Inl e \<Rightarrow> (Some e, scheduleRevertAccountRequest r s2)
                   | Inr (ns, tr, bnds, cnt, decoded) \<Rightarrow>
                       (None,
                        if chanAt s2 (cancel q) = Closed \<or> stale q = Closed then s2
                        else s2\<lparr>accountResps := accountResps s2 @
                               [\<lparr>accountResponse.task = accountRequest.task q,
                                 accountResponse.hashes = hs,
                                 accountResponse.accounts = decoded,
                                 accountResponse.nodes = ns, trie = tr,
                                 accountResponse.bounds = bnds,
                                 accountResponse.overflow = {},
                                 accountResponse.cont = cnt\<rparr>]\<rparr>)))"

text \<open>
  Aligning delivered blobs with the requested hashes: \<open>j\<close> is the first requested
  index not yet passed. \<open>None\<close>: a blob matches no remaining hash.
\<close>

fun alignBlobs ::
  "(bytes \<Rightarrow> hash) \<Rightarrow> hash list \<Rightarrow> nat \<Rightarrow> bytes list \<Rightarrow> bytes option list \<Rightarrow>
   bytes option list option" where
  "alignBlobs keccak hs j [] out = Some out"
| "alignBlobs keccak hs j (b # bs) out =
     (let j' = j + length (takeWhile (\<lambda>h. h \<noteq> keccak b) (drop j hs))
      in if j' < length hs then alignBlobs keccak hs (Suc j') bs (out[j' := Some b])
         else None)"

definition onByteCodes ::
  "(bytes \<Rightarrow> hash) \<Rightarrow> peerID \<Rightarrow> uint64 \<Rightarrow> bytes list \<Rightarrow> 'sch syncer \<Rightarrow> error option \<times> 'sch syncer" where
  "onByteCodes keccak pid rid bytecodes s =
     (let s1 = (if pid \<in> peers s
                then s\<lparr>bytecodeIdlers := List.insert pid (bytecodeIdlers s)\<rparr> else s)
               \<lparr>update := True\<rparr>
      in case bytecodeReqs s1 rid of
           None \<Rightarrow> (None, s1)
         | Some r \<Rightarrow>
             (let q = bytecodeRequestAt s1 r;
                  s2 = s1\<lparr>bytecodeReqs := (bytecodeReqs s1)(rid := None),
                          bytecodeRequestAt := (bytecodeRequestAt s1)
                            (r := q\<lparr>timeout := snd (Stop (timeout q))\<rparr>)\<rparr>
              in if \<not> fst (Stop (timeout q)) then (None, s2)
                 else if length bytecodes = 0
                 then (None, scheduleRevertBytecodeRequest r
                               (s2\<lparr>statelessPeers := insert pid (statelessPeers s2)\<rparr>))
                 else
                   case alignBlobs keccak (bytecodeRequest.hashes q) 0 bytecodes
                          (replicate (length (bytecodeRequest.hashes q)) None) of
                     None \<Rightarrow> (Some ErrUnexpected, scheduleRevertBytecodeRequest r s2)
                   | Some cs \<Rightarrow>
                       (None,
                        if chanAt s2 (cancel q) = Closed \<or> stale q = Closed then s2
                        else s2\<lparr>bytecodeResps := bytecodeResps s2 @
                               [\<lparr>bytecodeResponse.task = bytecodeRequest.task q,
                                 bytecodeResponse.hashes = bytecodeRequest.hashes q,
                                 bytecodeResponse.codes = cs\<rparr>]\<rparr>)))"

definition onHealByteCodes ::
  "(bytes \<Rightarrow> hash) \<Rightarrow> peerID \<Rightarrow> uint64 \<Rightarrow> bytes list \<Rightarrow> 'sch syncer \<Rightarrow> error option \<times> 'sch syncer" where
  "onHealByteCodes keccak pid rid bytecodes s =
     (let s1 = (if pid \<in> peers s
                then s\<lparr>bytecodeHealIdlers := List.insert pid (bytecodeHealIdlers s)\<rparr> else s)
               \<lparr>update := True\<rparr>
      in case bytecodeHealReqs s1 rid of
           None \<Rightarrow> (None, s1)
         | Some r \<Rightarrow>
             (let q = bytecodeHealRequestAt s1 r;
                  s2 = s1\<lparr>bytecodeHealReqs := (bytecodeHealReqs s1)(rid := None),
                          bytecodeHealRequestAt := (bytecodeHealRequestAt s1)
                            (r := q\<lparr>timeout := snd (Stop (timeout q))\<rparr>)\<rparr>
              in if \<not> fst (Stop (timeout q)) then (None, s2)
                 else if length bytecodes = 0
                 then (None, scheduleRevertBytecodeHealRequest r
                               (s2\<lparr>statelessPeers := insert pid (statelessPeers s2)\<rparr>))
                 else
                   case alignBlobs keccak (bytecodeHealRequest.hashes q) 0 bytecodes
                          (replicate (length (bytecodeHealRequest.hashes q)) None) of
                     None \<Rightarrow> (Some ErrUnexpected, scheduleRevertBytecodeHealRequest r s2)
                   | Some cs \<Rightarrow>
                       (None,
                        if chanAt s2 (cancel q) = Closed \<or> stale q = Closed then s2
                        else s2\<lparr>bytecodeHealResps := bytecodeHealResps s2 @
                               [\<lparr>bytecodeHealResponse.task = bytecodeHealRequest.task q,
                                 bytecodeHealResponse.hashes = bytecodeHealRequest.hashes q,
                                 bytecodeHealResponse.codes = cs\<rparr>]\<rparr>)))"

definition OnByteCodes ::
  "(bytes \<Rightarrow> hash) \<Rightarrow> peerID \<Rightarrow> uint64 \<Rightarrow> bytes list \<Rightarrow> 'sch syncer \<Rightarrow> error option \<times> 'sch syncer" where
  "OnByteCodes keccak pid rid bytecodes s =
     (if \<not> snapped s then onByteCodes keccak pid rid bytecodes s
      else onHealByteCodes keccak pid rid bytecodes s)"

text \<open>
  \<open>verify roots origin hashes slots proof\<close> stands for the loop of \<open>OnStorage\<close> that
  verifies every delivered contract: it yields the node databases, the tries, the
  boundary set and the continuation flag of the last contract, or the proof error.
\<close>

type_synonym verifyStorage =
  "hash list \<Rightarrow> hash \<Rightarrow> hash list list \<Rightarrow> bytes list list \<Rightarrow> bytes list \<Rightarrow>
   error + (hash \<times> bytes) list list \<times> trie list \<times> hash set \<times> bool"

definition OnStorage ::
  "verifyStorage \<Rightarrow> peerID \<Rightarrow> uint64 \<Rightarrow> hash list list \<Rightarrow> bytes list list \<Rightarrow> bytes list \<Rightarrow>
   'sch syncer \<Rightarrow> error option \<times> 'sch syncer" where
  "OnStorage verify pid rid hs sls prf s =
     (let s1 = (if pid \<in> peers s
                then s\<lparr>storageIdlers := List.insert pid (storageIdlers s)\<rparr> else s)
               \<lparr>update := True\<rparr>
      in case storageReqs s1 rid of
           None \<Rightarrow> (None, s1)
         | Some r \<Rightarrow>
             (let q = storageRequestAt s1 r;
                  s2 = s1\<lparr>storageReqs := (storageReqs s1)(rid := None),
                          storageRequestAt := (storageRequestAt s1)
                            (r := q\<lparr>timeout := snd (Stop (timeout q))\<rparr>)\<rparr>
              in if \<not> fst (Stop (timeout q)) then (None, s2)
                 else if length hs \<noteq> length sls
                 then (Some ErrSizeMismatch, scheduleRevertStorageRequest r s2)
                 else if length hs > length (storageRequest.accounts q)
                 then (Some ErrTooManyHashes, scheduleRevertStorageRequest r s2)
                 else if length hs = 0
                 then (None, scheduleRevertStorageRequest r
                               (s2\<lparr>statelessPeers := insert pid (statelessPeers s2)\<rparr>))
                 else
                   case verify (storageRequest.roots q) (storageRequest.origin q) hs sls prf of
                     Inl e \<Rightarrow> (Some e, scheduleRevertStorageRequest r s2)
                   | Inr (dbs, trs, bnds, cnt) \<Rightarrow>
                       (None,
                        if chanAt s2 (cancel q) = Closed \<or> stale q = Closed then s2
                        else s2\<lparr>storageResps := storageResps s2 @
                               [\<lparr>storageResponse.mainTask = storageRequest.mainTask q,
                                 storageResponse.subTask = storageRequest.subTask q,
                                 storageResponse.accounts = storageRequest.accounts q,
                                 storageResponse.roots = storageRequest.roots q,
                                 storageResponse.hashes = hs,
                                 slots = sls,
                                 storageResponse.nodes = dbs,
                                 tries = trs,
                                 storageResponse.bounds = bnds,
                                 storageResponse.overflow = {},
                                 storageResponse.cont = cnt\<rparr>]\<rparr>)))"

definition OnTrieNodes ::
  "(bytes \<Rightarrow> hash) \<Rightarrow> peerID \<Rightarrow> uint64 \<Rightarrow> bytes list \<Rightarrow> 'sch syncer \<Rightarrow> error option \<times> 'sch syncer" where
  "OnTrieNodes keccak pid rid trienodes s =
     (let s1 = (if pid \<in> peers s
                then s\<lparr>trienodeHealIdlers := List.insert pid (trienodeHealIdlers s)\<rparr> else s)
               \<lparr>update := True\<rparr>
      in case trienodeHealReqs s1 rid of
           None \<Rightarrow> (None, s1)
         | Some r \<Rightarrow>
             (let q = trienodeHealRequestAt s1 r;
                  s2 = s1\<lparr>trienodeHealReqs := (trienodeHealReqs s1)(rid := None),
                          trienodeHealRequestAt := (trienodeHealRequestAt s1)
                            (r := q\<lparr>timeout := snd (Stop (timeout q))\<rparr>)\<rparr>
              in if \<not> fst (Stop (timeout q)) then (None, s2)
                 else if length trienodes = 0
                 then (None, scheduleRevertTrienodeHealRequest r
                               (s2\<lparr>statelessPeers := insert pid (statelessPeers s2)\<rparr>))
                 else
                   case alignBlobs keccak (trienodeHealRequest.hashes q) 0 trienodes
                          (replicate (length (trienodeHealRequest.hashes q)) None) of
                     None \<Rightarrow> (Some ErrUnexpected, scheduleRevertTrienodeHealRequest r s2)
                   | Some ns \<Rightarrow>
                       (None,
                        if chanAt s2 (cancel q) = Closed \<or> stale q = Closed then s2
                        else s2\<lparr>trienodeHealResps := trienodeHealResps s2 @
                               [\<lparr>trienodeHealResponse.task = trienodeHealRequest.task q,
                                 trienodeHealResponse.hashes = trienodeHealRequest.hashes q,
                                 trienodeHealResponse.paths = trienodeHealRequest.paths q,
                                 trienodeHealResponse.nodes = ns\<rparr>]\<rparr>)))"

subsection \<open>Construction\<close>

text \<open>
  \<open>NewSyncer\<close>: empty tables and sets, zero counters. The heaps hold zero-valued
  objects; nothing refers to them yet.
\<close>

definition zeroRequest :: request where
  "zeroRequest = \<lparr>peer = [], id_req = 0, cancel = 0, timeout = Stopped, stale = Open\<rparr>"

definition NewSyncer :: "database \<Rightarrow> 'sch \<Rightarrow> 'sch syncer" where
  "NewSyncer d sch0 =
     \<lparr>db = d, syncer.root = 0, tasks = [], snapped = False, healer = 0, update = False,
      peers = {}, peerJoin = [], peerDrop = [], statelessPeers = {},
      accountIdlers = [], bytecodeIdlers = [], storageIdlers = [],
      accountReqs = Map.empty, bytecodeReqs = Map.empty, storageReqs = Map.empty,
      accountReqFails = [], bytecodeReqFails = [], storageReqFails = [],
      accountResps = [], bytecodeResps = [], storageResps = [],
      accountSynced = 0, accountBytes = 0, bytecodeSynced = 0, bytecodeBytes = 0,
      storageSynced = 0, storageBytes = 0,
      trienodeHealIdlers = [], bytecodeHealIdlers = [],
      trienodeHealReqs = Map.empty, bytecodeHealReqs = Map.empty,
      trienodeHealReqFails = [], bytecodeHealReqFails = [],
      trienodeHealResps = [], bytecodeHealResps = [],
      trienodeHealSynced = 0, trienodeHealBytes = 0, trienodeHealDups = 0,
      trienodeHealNops = 0, bytecodeHealSynced = 0, bytecodeHealBytes = 0,
      bytecodeHealDups = 0, bytecodeHealNops = 0,
      accountTaskAt = (\<lambda>_. \<lparr>Next = 0, Last = 0, req = None, done_flag = False,
                              SubTasks = [], res = None, pend = 0, needCode = [],
                              needState = [], needHeal = [], codeTasks = [],
                              stateTasks = []\<rparr>),
      storageTaskAt = (\<lambda>_. \<lparr>Next = 0, Last = 0, req = None, done_flag = False,
                              storageTask.root = 0\<rparr>),
      healTaskAt = (\<lambda>_. \<lparr>scheduler = sch0, trieTasks = [], healCodeTasks = []\<rparr>),
      accountRequestAt = (\<lambda>_. request.extend zeroRequest
         (accountRequest.fields 0 0 0)),
      bytecodeRequestAt = (\<lambda>_. request.extend zeroRequest
         (bytecodeRequest.fields [] 0)),
      storageRequestAt = (\<lambda>_. request.extend zeroRequest
         (storageRequest.fields [] [] 0 0 0 None)),
      trienodeHealRequestAt = (\<lambda>_. request.extend zeroRequest
         (trienodeHealRequest.fields [] [] 0)),
      bytecodeHealRequestAt = (\<lambda>_. request.extend zeroRequest
         (bytecodeHealRequest.fields [] 0)),
      chanAt = (\<lambda>_. Open),
      nextRef = 1\<rparr>"

definition emptyDB :: database where
  "emptyDB = \<lparr>syncStatus = None, kv = Map.empty\<rparr>"

definition bounds_of :: "'a interval_scheme \<Rightarrow> hash \<times> hash" where
  "bounds_of t = (Next t, Last t)"

text \<open>The bounds the chunk loop of \<open>loadSyncStatus\<close> computes, without the allocation.\<close>

fun chunkIntervals :: "nat \<Rightarrow> nat list \<Rightarrow> hash \<Rightarrow> (hash \<times> hash) list" where
  "chunkIntervals n [] next = []"
| "chunkIntervals n (i # is) next =
     (let last = BigToHash (Big next + chunkStep n);
          last = (if i = n - 1 then maxHash else last)
      in (next, last) # chunkIntervals n is (BigToHash (Big last + 1)))"

definition emptyResponse :: "ref \<Rightarrow> accountResponse" where
  "emptyResponse tr =
     \<lparr>accountResponse.task = tr, accountResponse.hashes = [], accountResponse.accounts = [],
      accountResponse.nodes = [], trie = (\<lambda>_. Some []), accountResponse.bounds = {},
      accountResponse.overflow = {}, accountResponse.cont = False\<rparr>"

text \<open>
  A syncer with one idle peer and one account task (at reference 1) that holds a
  response and 85 queued code hashes.
\<close>

definition codeState85 :: "unit syncer" where
  "codeState85 =
     (NewSyncer emptyDB ())
       \<lparr>tasks := [1], peers := {''p''}, bytecodeIdlers := [''p''], nextRef := 2,
        accountTaskAt := (accountTaskAt (NewSyncer emptyDB ()))
          (1 := \<lparr>Next = 0, Last = maxHash, req = None, done_flag = False,
                 SubTasks = [], res = Some (emptyResponse 1), pend = 85,
                 needCode = [], needState = [], needHeal = [],
                 codeTasks = map word_of_nat [0..<85], stateTasks = []\<rparr>)\<rparr>"

definition bytecodeStep :: "ref \<Rightarrow> ref \<Rightarrow> uint64 \<Rightarrow> 'sch syncer \<Rightarrow> 'sch syncer" where
  "bytecodeStep c tr reqid s =
     s\<lparr>bytecodeRequestAt := (bytecodeRequestAt s)
          (nextRef s := \<lparr>peer = findIdle (bytecodeIdlers s) (statelessPeers s), id_req = reqid,
                         cancel = c, timeout = Armed, stale = Open,
                         bytecodeRequest.hashes =
                           snd (drain maxCodeRequestCount (codeTasks (accountTaskAt s tr)) []),
                         bytecodeRequest.task = tr\<rparr>),
        nextRef := Suc (nextRef s),
        bytecodeReqs := (bytecodeReqs s)(reqid \<mapsto> nextRef s),
        bytecodeIdlers := removeAll (findIdle (bytecodeIdlers s) (statelessPeers s))
                            (bytecodeIdlers s),
        accountTaskAt := (accountTaskAt s)
          (tr := (accountTaskAt s tr)
             \<lparr>codeTasks := fst (drain maxCodeRequestCount (codeTasks (accountTaskAt s tr)) [])\<rparr>)\<rparr>"

text \<open>
  An account task (at reference 1, covering the whole keyspace) that holds a response
  with the accounts 5 and 9, neither with code or storage on record; the second one is
  flagged as still needing its code.
\<close>

definition plainAccount :: account where
  "plainAccount = \<lparr>Nonce = 0, Balance = 0, Root = emptyRoot, CodeHash = hashBytes emptyCode\<rparr>"

definition twoAccounts :: accountResponse where
  "twoAccounts =
     \<lparr>accountResponse.task = 1, accountResponse.hashes = [5, 9],
      accountResponse.accounts = [plainAccount, plainAccount],
      accountResponse.nodes = [], trie = (\<lambda>_. Some []), accountResponse.bounds = {},
      accountResponse.overflow = {}, accountResponse.cont = True\<rparr>"

definition forwardState :: "unit syncer" where
  "forwardState =
     (NewSyncer emptyDB ())
       \<lparr>tasks := [1], nextRef := 2,
        accountTaskAt := (accountTaskAt (NewSyncer emptyDB ()))
          (1 := \<lparr>Next = 0, Last = maxHash, req = None, done_flag = False,
                 SubTasks = [], res = Some twoAccounts, pend = 1,
                 needCode = [False, True], needState = [False, False],
                 needHeal = [False, False], codeTasks = [], stateTasks = []\<rparr>)\<rparr>"

text \<open>What an allocation leaves alone: everything but the two task heaps and the allocator.\<close>

definition frame :: "'sch syncer \<Rightarrow> 'sch syncer \<Rightarrow> bool" where
  "frame s s' \<longleftrightarrow>
     s' = s\<lparr>accountTaskAt := accountTaskAt s', storageTaskAt := storageTaskAt s',
            nextRef := nextRef s'\<rparr>"

definition subTasksJSON :: "'sch syncer \<Rightarrow> (hash \<times> ref list) list \<Rightarrow> (hash \<times> interval list) list" where
  "subTasksJSON s subs = map (\<lambda>(h, sts). (h, map (storageTaskJSON s) sts)) subs"

text \<open>
  The references of a task list and of its sub-tasks lie below the allocator, so later
  allocations leave the serialized view of the list alone.
\<close>

definition allocated :: "'sch syncer \<Rightarrow> ref list \<Rightarrow> bool" where
  "allocated s rs \<longleftrightarrow>
     (\<forall>r\<in>set rs. r < nextRef s
        \<and> (\<forall>(h, sts)\<in>set (SubTasks (accountTaskAt s r)). \<forall>q\<in>set sts. q < nextRef s))"

definition savedProgress :: "'sch syncer \<Rightarrow> syncProgress" where
  "savedProgress s =
            \<lparr>Tasks = map (taskJSON s) (tasks s),
             AccountSynced = accountSynced s,
             AccountBytes = accountBytes s,
             BytecodeSynced = bytecodeSynced s,
             BytecodeBytes = bytecodeBytes s,
             StorageSynced = storageSynced s,
             StorageBytes = storageBytes s,
             TrienodeHealSynced = trienodeHealSynced s,
             TrienodeHealBytes = trienodeHealBytes s,
             TrienodeHealDups = 0,
             TrienodeHealNops = 0,
             BytecodeHealSynced = bytecodeHealSynced s,
             BytecodeHealBytes = bytecodeHealBytes s,
             BytecodeHealDups = 0,
             BytecodeHealNops = 0\<rparr>"

text \<open>
  A syncer in the middle of a cycle: one account task from 0x10 to the end of the
  keyspace with a large contract split in two chunks, and some counters.
\<close>

definition midSync :: "unit syncer" where
  "midSync =
     (NewSyncer emptyDB ())
       \<lparr>tasks := [1], nextRef := 4,
        accountSynced := 7, accountBytes := 700, trienodeHealDups := 3,
        accountTaskAt := (accountTaskAt (NewSyncer emptyDB ()))
          (1 := \<lparr>Next = 0x10, Last = maxHash, req = None, done_flag = False,
                 SubTasks = [(0xaa, [2, 3])], res = None, pend = 0,
                 needCode = [], needState = [], needHeal = [], codeTasks = [],
                 stateTasks = []\<rparr>),
        storageTaskAt := (storageTaskAt (NewSyncer emptyDB ()))
          (2 := \<lparr>Next = 0x20, Last = 0x7f, req = None, done_flag = False,
                 storageTask.root = 0x99\<rparr>,
           3 := \<lparr>Next = 0x80, Last = maxHash, req = None, done_flag = False,
                 storageTask.root = 0x99\<rparr>)\<rparr>"

text \<open>
  An account task (reference 1) whose request slot holds request 3, live under id 9.
  Request 2 is an earlier request for the same task: its response was consumed, which
  leaves the stale signal open, and the task was assigned anew since.
\<close>

definition revertState :: "unit syncer" where
  "revertState =
     (NewSyncer emptyDB ())
       \<lparr>tasks := [1], nextRef := 4, peers := {''p'', ''q''},
        accountReqs := [9 \<mapsto> 3],
        accountTaskAt := (accountTaskAt (NewSyncer emptyDB ()))
          (1 := \<lparr>Next = 0, Last = maxHash, req = Some 3, done_flag = False,
                 SubTasks = [], res = None, pend = 0,
                 needCode = [], needState = [], needHeal = [], codeTasks = [],
                 stateTasks = []\<rparr>),
        accountRequestAt := (accountRequestAt (NewSyncer emptyDB ()))
          (2 := \<lparr>peer = ''p'', id_req = 7, cancel = 0, timeout = Stopped, stale = Open,
                 accountRequest.origin = 0, accountRequest.limit = maxHash,
                 accountRequest.task = 1\<rparr>,
           3 := \<lparr>peer = ''q'', id_req = 9, cancel = 0, timeout = Armed, stale = Open,
                 accountRequest.origin = 0, accountRequest.limit = maxHash,
                 accountRequest.task = 1\<rparr>)\<rparr>"

text \<open>
  An account task from 0 to 0x100 (reference 1) and a response with the accounts 0x50
  and 0x200: the proof of 0x50 passes node 1, that of 0x200 node 2, and node 3 lies on
  the boundary.
\<close>

definition overflowResponse :: accountResponse where
  "overflowResponse =
     \<lparr>accountResponse.task = 5, accountResponse.hashes = [0x50, 0x200],
      accountResponse.accounts = [plainAccount, plainAccount],
      accountResponse.nodes = [(1, [1]), (2, [2]), (3, [3])],
      trie = (\<lambda>h. if h = 0x200 then Some [2] else Some [1]),
      accountResponse.bounds = {3},
      accountResponse.overflow = {}, accountResponse.cont = True\<rparr>"

definition overflowState :: "unit syncer" where
  "overflowState =
     (NewSyncer emptyDB ())
       \<lparr>tasks := [5], nextRef := 6,
        accountTaskAt := (accountTaskAt (NewSyncer emptyDB ()))
          (5 := \<lparr>Next = 0, Last = 0x100, req = None, done_flag = False,
                 SubTasks = [], res = None, pend = 0,
                 needCode = [], needState = [], needHeal = [], codeTasks = [],
                 stateTasks = []\<rparr>)\<rparr>"

definition trimmed :: accountResponse where
  "trimmed = overflowResponse\<lparr>accountResponse.overflow := {2},
                    accountResponse.hashes := [0x50],
                    accountResponse.accounts := [plainAccount],
                    accountResponse.cont := False\<rparr>"

section \<open>Verified properties\<close>

lemma chunkAccounts_bounds:
  "\<forall>r\<in>set (tasks s). r < nextRef s \<Longrightarrow>
   map (\<lambda>r. bounds_of (accountTaskAt (chunkAccounts is next s) r)) (tasks (chunkAccounts is next s))
   = map (\<lambda>r. bounds_of (accountTaskAt s r)) (tasks s) @ chunkIntervals accountConcurrency is next"
proof (induction "is" arbitrary: "next" s)
  case Nil
  then show ?case by simp
next
  case (Cons i "is")
  define last where "last = (if i = accountConcurrency - 1 then maxHash
     else BigToHash (Big next + chunkStep accountConcurrency))"
  define s' where "s' = s\<lparr>tasks := tasks s @ [nextRef s],
                  accountTaskAt := (accountTaskAt s)
                    (nextRef s := \<lparr>Next = next, Last = last, req = None, done_flag = False,
                           SubTasks = [], res = None, pend = 0, needCode = [],
                           needState = [], needHeal = [], codeTasks = [],
                           stateTasks = []\<rparr>),
                  nextRef := Suc (nextRef s)\<rparr>"
  have step: "chunkAccounts (i # is) next s = chunkAccounts is (BigToHash (Big last + 1)) s'"
    by (simp add: Let_def last_def s'_def)
  have fresh: "\<forall>r\<in>set (tasks s'). r < nextRef s'"
    using Cons.prems by (auto simp: s'_def)
  have old: "map (\<lambda>r. bounds_of (accountTaskAt s' r)) (tasks s')
     = map (\<lambda>r. bounds_of (accountTaskAt s r)) (tasks s) @ [(next, last)]"
    using Cons.prems by (auto simp: s'_def bounds_of_def)
  have ivs: "chunkIntervals accountConcurrency (i # is) next
     = (next, last) # chunkIntervals accountConcurrency is (BigToHash (Big last + 1))"
    by (simp add: Let_def last_def)
  show ?case
    unfolding step ivs Cons.IH [OF fresh] old by simp
qed

lemma upt_16: "[0..<16] = [0, 1, 2, 3, 4, 5, 6, 7, 8, 9, 10, 11, 12, 13, 14, 15]"
  by (simp add: upt_rec)

lemma chunkIntervals_16:
  "chunkIntervals 16 [0..<16] 0 =
     map (\<lambda>i. (word_of_nat i * 2 ^ 252, word_of_nat i * 2 ^ 252 + (2 ^ 252 - 1))) [0..<16]"
  by (simp add: upt_16 chunkStep_def Big_def BigToHash_def maxHash_def Let_def)

lemma loadSyncStatus_fresh_bounds:
  assumes "syncStatus (db s) = None \<or> syncStatus (db s) = Some Malformed"
  shows "map (\<lambda>r. bounds_of (accountTaskAt (loadSyncStatus s) r)) (tasks (loadSyncStatus s))
     = map (\<lambda>i. (word_of_nat i * 2 ^ 252, word_of_nat i * 2 ^ 252 + (2 ^ 252 - 1))) [0..<16]"
proof -
  define s0 where "s0 = s\<lparr>tasks := [],
               accountSynced := 0, accountBytes := 0,
               bytecodeSynced := 0, bytecodeBytes := 0,
               storageSynced := 0, storageBytes := 0,
               trienodeHealSynced := 0, trienodeHealBytes := 0,
               bytecodeHealSynced := 0, bytecodeHealBytes := 0\<rparr>"
  have l: "loadSyncStatus s = chunkAccounts [0..<accountConcurrency] 0 s0"
    using assms by (auto simp: loadSyncStatus_def s0_def)
  have "tasks s0 = []" by (simp add: s0_def)
  then have "map (\<lambda>r. bounds_of (accountTaskAt (chunkAccounts [0..<accountConcurrency] 0 s0) r))
          (tasks (chunkAccounts [0..<accountConcurrency] 0 s0))
        = chunkIntervals accountConcurrency [0..<accountConcurrency] 0"
    by (subst chunkAccounts_bounds) simp_all
  then show ?thesis
    unfolding l by (simp only: accountConcurrency_def chunkIntervals_16)
qed

lemma word252_uint:
  "i < 16 \<Longrightarrow> uint (word_of_nat i * 2 ^ 252 :: hash) = int i * 2 ^ 252"
  "i < 16 \<Longrightarrow> uint (word_of_nat i * 2 ^ 252 + (2 ^ 252 - 1) :: hash) = int i * 2 ^ 252 + (2 ^ 252 - 1)"
proof -
  assume "i < 16"
  then have "i \<in> set [0..<16]" by simp
  then have "i \<in> {0, 1, 2, 3, 4, 5, 6, 7, 8, 9, 10, 11, 12, 13, 14, 15}"
    unfolding upt_16 by simp
  then show "uint (word_of_nat i * 2 ^ 252 :: hash) = int i * 2 ^ 252"
    and "uint (word_of_nat i * 2 ^ 252 + (2 ^ 252 - 1) :: hash) = int i * 2 ^ 252 + (2 ^ 252 - 1)"
    by auto
qed

text \<open>
  C2. Without well-formed persisted progress, \<open>loadSyncStatus\<close> creates exactly
  \<open>accountConcurrency = 16\<close> account tasks. Task \<open>i\<close> starts at \<open>i * floor(2^256 / 16)\<close>
  and ends \<open>floor(2^256 / 16) - 1\<close> later, read as integers (nothing wraps around); the
  first task starts at 0, the last ends at \<open>0xff...ff\<close>, and every task starts one past
  the end of the task before it.
\<close>

theorem loadSyncStatus_fresh_chunks:
  assumes "syncStatus (db s) = None \<or> syncStatus (db s) = Some Malformed"
  shows "length (tasks (loadSyncStatus s)) = accountConcurrency
    \<and> accountConcurrency = 16
    \<and> (\<forall>i<16. Big (Next (accountTaskAt (loadSyncStatus s) (tasks (loadSyncStatus s) ! i)))
                  = int i * (hashSpace div 16)
              \<and> Big (Last (accountTaskAt (loadSyncStatus s) (tasks (loadSyncStatus s) ! i)))
                  = Big (Next (accountTaskAt (loadSyncStatus s) (tasks (loadSyncStatus s) ! i)))
                    + (hashSpace div 16 - 1))
    \<and> Next (accountTaskAt (loadSyncStatus s) (tasks (loadSyncStatus s) ! 0)) = 0
    \<and> Last (accountTaskAt (loadSyncStatus s) (tasks (loadSyncStatus s) ! 15)) = maxHash
    \<and> (\<forall>i<15. Big (Next (accountTaskAt (loadSyncStatus s) (tasks (loadSyncStatus s) ! Suc i)))
                  = Big (Last (accountTaskAt (loadSyncStatus s) (tasks (loadSyncStatus s) ! i))) + 1)"
proof -
  let ?s = "loadSyncStatus s"
  let ?f = "\<lambda>i::nat. (word_of_nat i * 2 ^ 252 :: hash, word_of_nat i * 2 ^ 252 + (2 ^ 252 - 1) :: hash)"
  have m: "map (\<lambda>r. bounds_of (accountTaskAt ?s r)) (tasks ?s) = map ?f [0..<16]"
    by (rule loadSyncStatus_fresh_bounds [OF assms])
  have len: "length (tasks ?s) = 16"
    using arg_cong [OF m, of length] by simp
  have nth: "bounds_of (accountTaskAt ?s (tasks ?s ! i)) = ?f i" if "i < 16" for i
  proof -
    have "map (\<lambda>r. bounds_of (accountTaskAt ?s r)) (tasks ?s) ! i = map ?f [0..<16] ! i"
      by (simp only: m)
    with that len show ?thesis by simp
  qed
  have N: "Next (accountTaskAt ?s (tasks ?s ! i)) = word_of_nat i * 2 ^ 252" if "i < 16" for i
    using nth [OF that] by (simp add: bounds_of_def)
  have L: "Last (accountTaskAt ?s (tasks ?s ! i)) = word_of_nat i * 2 ^ 252 + (2 ^ 252 - 1)"
    if "i < 16" for i
    using nth [OF that] by (simp add: bounds_of_def)
  have hs: "hashSpace div 16 = 2 ^ 252" by (simp add: hashSpace_def)
  show ?thesis
  proof (intro conjI allI impI)
    show "length (tasks ?s) = accountConcurrency" by (simp add: len accountConcurrency_def)
    show "accountConcurrency = 16" by (simp add: accountConcurrency_def)
    show "Next (accountTaskAt ?s (tasks ?s ! 0)) = 0" using N [of 0] by simp
    show "Last (accountTaskAt ?s (tasks ?s ! 15)) = maxHash"
      using L [of 15] by (simp add: maxHash_def)
  next
    fix i :: nat assume i: "i < 16"
    show "Big (Next (accountTaskAt ?s (tasks ?s ! i))) = int i * (hashSpace div 16)"
      by (simp only: N [OF i] Big_def word252_uint(1) [OF i] hs)
    show "Big (Last (accountTaskAt ?s (tasks ?s ! i)))
        = Big (Next (accountTaskAt ?s (tasks ?s ! i))) + (hashSpace div 16 - 1)"
      by (simp only: N [OF i] L [OF i] Big_def word252_uint [OF i] hs)
  next
    fix i :: nat assume i: "i < 15"
    then have i1: "i < 16" and i2: "Suc i < 16" by simp_all
    show "Big (Next (accountTaskAt ?s (tasks ?s ! Suc i)))
        = Big (Last (accountTaskAt ?s (tasks ?s ! i))) + 1"
      by (simp only: N [OF i2] L [OF i1] Big_def word252_uint(1) [OF i2] word252_uint(2) [OF i1])
         (simp add: algebra_simps)
  qed
qed

theorem loadSyncStatus_fresh_chunks_witness:
  "syncStatus (db (NewSyncer emptyDB ())) = None
   \<and> length (tasks (loadSyncStatus (NewSyncer emptyDB ()))) = 16
   \<and> Last (accountTaskAt (loadSyncStatus (NewSyncer emptyDB ()))
         (tasks (loadSyncStatus (NewSyncer emptyDB ())) ! 15)) = maxHash
   \<and> Big (Next (accountTaskAt (loadSyncStatus (NewSyncer emptyDB ()))
         (tasks (loadSyncStatus (NewSyncer emptyDB ())) ! 3))) = 3 * 2 ^ 252"
proof -
  have h: "syncStatus (db (NewSyncer emptyDB ())) = None
      \<or> syncStatus (db (NewSyncer emptyDB ())) = Some Malformed"
    by (simp add: NewSyncer_def emptyDB_def)
  have n: "syncStatus (db (NewSyncer emptyDB ())) = None"
    by (simp add: NewSyncer_def emptyDB_def)
  from loadSyncStatus_fresh_chunks [OF h] n show ?thesis
    by (simp add: hashSpace_def accountConcurrency_def)
qed

text \<open>
  C10. \<open>Unregister\<close> removes the id from the stateless set, the peer table and all
  five idle sets. So a registered peer, stateless or not, that unregisters and
  registers again is not stateless afterwards and is in all five idle sets.
\<close>

theorem Unregister_clears_stateless:
  assumes "pid \<in> peers s"
  shows "\<exists>s1 s2. Unregister pid s = Inr s1 \<and> Register pid s1 = Inr s2
    \<and> pid \<notin> statelessPeers s1 \<and> pid \<notin> peers s1
    \<and> pid \<notin> set (accountIdlers s1) \<and> pid \<notin> set (storageIdlers s1)
    \<and> pid \<notin> set (bytecodeIdlers s1) \<and> pid \<notin> set (trienodeHealIdlers s1)
    \<and> pid \<notin> set (bytecodeHealIdlers s1)
    \<and> pid \<notin> statelessPeers s2 \<and> pid \<in> peers s2
    \<and> pid \<in> set (accountIdlers s2) \<and> pid \<in> set (storageIdlers s2)
    \<and> pid \<in> set (bytecodeIdlers s2) \<and> pid \<in> set (trienodeHealIdlers s2)
    \<and> pid \<in> set (bytecodeHealIdlers s2)"
  using assms by (simp add: Unregister_def Register_def)

theorem Unregister_clears_stateless_witness:
  "''p'' \<in> peers ((NewSyncer emptyDB ())\<lparr>peers := {''p''}, statelessPeers := {''p''}\<rparr>)
   \<and> ''p'' \<in> statelessPeers ((NewSyncer emptyDB ())\<lparr>peers := {''p''}, statelessPeers := {''p''}\<rparr>)
   \<and> (\<exists>s1 s2. Unregister ''p'' ((NewSyncer emptyDB ())\<lparr>peers := {''p''}, statelessPeers := {''p''}\<rparr>) = Inr s1
         \<and> Register ''p'' s1 = Inr s2
         \<and> ''p'' \<notin> statelessPeers s2
         \<and> findIdle (accountIdlers s2) (statelessPeers s2) = ''p'')"
proof -
  let ?s = "(NewSyncer emptyDB ())\<lparr>peers := {''p''}, statelessPeers := {''p''}\<rparr>"
  have h: "''p'' \<in> peers ?s" by simp
  obtain s1 s2 where u: "Unregister ''p'' ?s = Inr s1" and r: "Register ''p'' s1 = Inr s2"
    and n: "''p'' \<notin> statelessPeers s2"
    using Unregister_clears_stateless [OF h] by blast
  have "findIdle (accountIdlers s2) (statelessPeers s2) = ''p''"
    using u r by (auto simp: Unregister_def Register_def NewSyncer_def findIdle_def)
  with u r n h show ?thesis by auto
qed

lemma drain_take:
  "0 < n \<Longrightarrow> length acc < n \<Longrightarrow>
   drain n xs acc = (drop (n - length acc) xs, acc @ take (n - length acc) xs)"
proof (induction xs arbitrary: acc)
  case Nil
  then show ?case by simp
next
  case (Cons x xs)
  show ?case
  proof (cases "n \<le> Suc (length acc)")
    case True
    with Cons.prems have "n - length acc = Suc 0" by simp
    with True show ?thesis by (simp add: Let_def)
  next
    case False
    then have l: "length (acc @ [x]) < n" by simp
    have "n - length acc = Suc (n - length (acc @ [x]))" using False by simp
    with False Cons.IH [OF Cons.prems(1) l] show ?thesis by (simp add: Let_def)
  qed
qed

lemma drain_length:
  "0 < n \<Longrightarrow> length (snd (drain n xs [])) = min n (length xs)"
  by (simp add: drain_take)

lemma maxCodeRequestCount_84: "maxCodeRequestCount = 84"
  by (simp add: maxCodeRequestCount_def maxRequestSize_def)

lemma assignBytecodeLoop_cases:
  "assignBytecodeLoop c (tr # trs) rands s =
     (if res (accountTaskAt s tr) = None \<or> codeTasks (accountTaskAt s tr) = []
      then assignBytecodeLoop c trs rands s
      else if findIdle (bytecodeIdlers s) (statelessPeers s) = [] then Some (s, rands)
      else case pickReqid rands (bytecodeReqs s) of
             None \<Rightarrow> None
           | Some (reqid, rs) \<Rightarrow> assignBytecodeLoop c trs rs (bytecodeStep c tr reqid s))"
  by (simp add: Let_def bytecodeStep_def split_beta split: option.splits)

lemma assignBytecodeLoop_requests:
  "assignBytecodeLoop c trs rands s = Some (s', rands') \<Longrightarrow>
   nextRef s \<le> nextRef s'
   \<and> (\<forall>r<nextRef s. bytecodeRequestAt s' r = bytecodeRequestAt s r)
   \<and> (\<forall>r. nextRef s \<le> r \<and> r < nextRef s' \<longrightarrow>
          length (bytecodeRequest.hashes (bytecodeRequestAt s' r)) \<le> maxCodeRequestCount)"
proof (induction trs arbitrary: rands s)
  case Nil
  then show ?case by simp
next
  case (Cons tr trs)
  note prem = Cons.prems [unfolded assignBytecodeLoop_cases]
  show ?case
  proof (cases "res (accountTaskAt s tr) = None \<or> codeTasks (accountTaskAt s tr) = []")
    case True
    with prem have "assignBytecodeLoop c trs rands s = Some (s', rands')"
      by (simp only: if_True)
    from Cons.IH [OF this] show ?thesis .
  next
    case skip: False
    show ?thesis
    proof (cases "findIdle (bytecodeIdlers s) (statelessPeers s) = []")
      case True
      with skip prem have "s' = s" by (simp only: if_True if_False) simp
      then show ?thesis by simp
    next
      case idle: False
      from skip idle prem obtain reqid rs where
        step: "assignBytecodeLoop c trs rs (bytecodeStep c tr reqid s) = Some (s', rands')"
        by (simp only: if_False split: option.splits prod.splits) auto
      define s1 where "s1 = bytecodeStep c tr reqid s"
      have tl: "length (bytecodeRequest.hashes (bytecodeRequestAt s1 (nextRef s)))
                  \<le> maxCodeRequestCount"
        by (simp add: s1_def bytecodeStep_def drain_length maxCodeRequestCount_84)
      have n1: "nextRef s1 = Suc (nextRef s)" by (simp add: s1_def bytecodeStep_def)
      have old: "\<forall>r<nextRef s. bytecodeRequestAt s1 r = bytecodeRequestAt s r"
        by (simp add: s1_def bytecodeStep_def)
      from Cons.IH [OF step [folded s1_def]]
      have a: "nextRef s1 \<le> nextRef s'"
        and b: "\<forall>r<nextRef s1. bytecodeRequestAt s' r = bytecodeRequestAt s1 r"
        and d: "\<forall>r. nextRef s1 \<le> r \<and> r < nextRef s' \<longrightarrow>
                 length (bytecodeRequest.hashes (bytecodeRequestAt s' r)) \<le> maxCodeRequestCount"
        by blast+
      have "nextRef s \<le> nextRef s'" using a n1 by simp
      moreover have "\<forall>r<nextRef s. bytecodeRequestAt s' r = bytecodeRequestAt s r"
        using b n1 old by simp
      moreover have "length (bytecodeRequest.hashes (bytecodeRequestAt s' r)) \<le> maxCodeRequestCount"
        if "nextRef s \<le> r" "r < nextRef s'" for r
      proof (cases "r = nextRef s")
        case True
        then have "bytecodeRequestAt s' r = bytecodeRequestAt s1 (nextRef s)" using b n1 by simp
        then show ?thesis using tl by simp
      next
        case False
        with that have "nextRef s1 \<le> r" using n1 by simp
        with d that show ?thesis by blast
      qed
      ultimately show ?thesis by blast
    qed
  qed
qed

text \<open>
  C9 (as amended). A bytecode request takes at most \<open>maxCodeRequestCount\<close> hashes
  from a task's \<open>codeTasks\<close>, and \<open>maxCodeRequestCount\<close> is
  \<open>maxRequestSize / (24 * 1024) * 4\<close> in integer arithmetic, which is 84 for
  \<open>maxRequestSize = 524288\<close>.
\<close>

theorem assignBytecodeTasks_request_size:
  assumes "assignBytecodeTasks c rands s = Some (s', rands')"
    and "nextRef s \<le> r" and "r < nextRef s'"
  shows "length (bytecodeRequest.hashes (bytecodeRequestAt s' r)) \<le> maxCodeRequestCount
    \<and> maxCodeRequestCount = maxRequestSize div (24 * 1024) * 4
    \<and> maxRequestSize = 524288
    \<and> maxCodeRequestCount = 84"
proof -
  have "nextRef s' \<noteq> nextRef s" using assms(2,3) by simp
  with assms(1) have "assignBytecodeLoop c (tasks s) rands s = Some (s', rands')"
    by (auto simp: assignBytecodeTasks_def split: if_splits)
  from assignBytecodeLoop_requests [OF this] assms(2,3)
  show ?thesis
    by (simp add: maxCodeRequestCount_84) (simp add: maxCodeRequestCount_def maxRequestSize_def)
qed

lemma codeState85_run:
  "assignBytecodeTasks 0 [7] codeState85 \<noteq> None
   \<and> nextRef (fst (the (assignBytecodeTasks 0 [7] codeState85))) = 3
   \<and> bytecodeReqs (fst (the (assignBytecodeTasks 0 [7] codeState85))) 7 = Some 2
   \<and> length (bytecodeRequest.hashes
        (bytecodeRequestAt (fst (the (assignBytecodeTasks 0 [7] codeState85))) 2)) = 84
   \<and> length (codeTasks (accountTaskAt (fst (the (assignBytecodeTasks 0 [7] codeState85))) 1)) = 1"
  by (simp add: assignBytecodeTasks_def codeState85_def NewSyncer_def findIdle_def
        drain_take maxCodeRequestCount_84 emptyResponse_def assignBytecodeLoop_cases
        bytecodeStep_def del: assignBytecodeLoop.simps(2))

theorem assignBytecodeTasks_request_size_witness:
  "assignBytecodeTasks 0 [7] codeState85 = Some (the (assignBytecodeTasks 0 [7] codeState85))
   \<and> nextRef codeState85 \<le> 2
   \<and> 2 < nextRef (fst (the (assignBytecodeTasks 0 [7] codeState85)))
   \<and> length (bytecodeRequest.hashes
        (bytecodeRequestAt (fst (the (assignBytecodeTasks 0 [7] codeState85))) 2)) \<le> 84"
proof -
  obtain s' rs where r: "assignBytecodeTasks 0 [7] codeState85 = Some (s', rs)"
    using codeState85_run by fastforce
  have a: "nextRef codeState85 \<le> 2" by (simp add: codeState85_def)
  have b: "2 < nextRef s'" using codeState85_run r by simp
  from assignBytecodeTasks_request_size [OF r a b] r a b show ?thesis by simp
qed

text \<open>
  C9 as stated fails: with 85 code hashes queued, the request built takes 84 of them
  and leaves one behind.
\<close>

theorem maxCodeRequestCount_counterexample:
  "length (codeTasks (accountTaskAt codeState85 1)) = 85
   \<and> assignBytecodeTasks 0 [7] codeState85 \<noteq> None
   \<and> bytecodeReqs (fst (the (assignBytecodeTasks 0 [7] codeState85))) 7 = Some 2
   \<and> length (bytecodeRequest.hashes
        (bytecodeRequestAt (fst (the (assignBytecodeTasks 0 [7] codeState85))) 2)) = 84
   \<and> length (codeTasks (accountTaskAt (fst (the (assignBytecodeTasks 0 [7] codeState85))) 1)) = 1
   \<and> maxCodeRequestCount \<noteq> 85"
  using codeState85_run by (simp add: maxCodeRequestCount_84) (simp add: codeState85_def)

lemma incomplete_Next [simp]: "incomplete (t\<lparr>Next := x\<rparr>) j = incomplete t j"
  by (simp add: incomplete_def split: sum.splits)

lemma advanceNext_spec:
  "advanceNext t (enumerate i hs) = Inr (t', fin) \<Longrightarrow>
   \<exists>k\<le>length hs.
      (\<forall>j<k. incomplete t (i + j) = Inr False)
    \<and> (k < length hs \<longrightarrow> incomplete t (i + k) = Inr True)
    \<and> fin = (k = length hs)
    \<and> t' = (if k = 0 then t else t\<lparr>Next := BigToHash (Big (hs ! (k - 1)) + 1)\<rparr>)"
proof (induction hs arbitrary: i t)
  case Nil
  then show ?case by simp
next
  case (Cons h hs)
  show ?case
  proof (cases "incomplete t i")
    case (Inl e)
    with Cons.prems show ?thesis by simp
  next
    case (Inr b)
    show ?thesis
    proof (cases b)
      case True
      with Inr Cons.prems have "t' = t" "fin = False" by simp_all
      with Inr True show ?thesis by (intro exI [of _ 0]) simp
    next
      case False
      with Inr Cons.prems
      have "advanceNext (t\<lparr>Next := BigToHash (Big h + 1)\<rparr>) (enumerate (Suc i) hs) = Inr (t', fin)"
        by simp
      from Cons.IH [OF this] obtain k where k: "k \<le> length hs"
        "\<forall>j<k. incomplete t (Suc i + j) = Inr False"
        "k < length hs \<longrightarrow> incomplete t (Suc i + k) = Inr True"
        "fin = (k = length hs)"
        "t' = (if k = 0 then t\<lparr>Next := BigToHash (Big h + 1)\<rparr>
               else t\<lparr>Next := BigToHash (Big h + 1)\<rparr>\<lparr>Next := BigToHash (Big (hs ! (k - 1)) + 1)\<rparr>)"
        by auto
      have all: "\<forall>j<Suc k. incomplete t (i + j) = Inr False"
      proof (intro allI impI)
        fix j assume "j < Suc k"
        then show "incomplete t (i + j) = Inr False"
          using k(2) Inr False by (cases j) auto
      qed
      show ?thesis
        using k(1,3,4,5) all by (intro exI [of _ "Suc k"]) (auto simp: nth_Cons')
    qed
  qed
qed

lemma forwardAccountTask_unfold:
  assumes "forwardAccountTask rlp tr s = Inr s'" and "res (accountTaskAt s tr) = Some r"
  shows "\<exists>t2 fin.
      advanceNext ((accountTaskAt s tr)\<lparr>res := None\<rparr>) (enumerate 0 (accountResponse.hashes r))
        = Inr (t2, fin)
    \<and> accountTaskAt s' = (accountTaskAt s)
         (tr := (if fin then t2\<lparr>done_flag := \<not> accountResponse.cont r\<rparr> else t2))
    \<and> tasks s' = tasks s"
proof -
  let ?t1 = "(accountTaskAt s tr)\<lparr>res := None\<rparr>"
  obtain batch n where fb: "forwardBatch rlp ?t1 r = Inr (batch, n)"
    using assms by (cases "forwardBatch rlp ?t1 r") (auto simp: forwardAccountTask_def Let_def)
  obtain t2 fin where adv: "advanceNext ?t1 (enumerate 0 (accountResponse.hashes r)) = Inr (t2, fin)"
    using assms fb
    by (cases "advanceNext ?t1 (enumerate 0 (accountResponse.hashes r))")
       (auto simp: forwardAccountTask_def Let_def)
  have "s' = (s\<lparr>db := batchWrite batch (db s),
                            accountBytes := accountBytes s + n,
                            accountSynced := accountSynced s
                               + of_nat (length (accountResponse.accounts r))\<rparr>)
            \<lparr>accountTaskAt := (accountTaskAt s)
               (tr := (if fin then t2\<lparr>done_flag := \<not> accountResponse.cont r\<rparr> else t2))\<rparr>"
    using assms fb adv by (simp add: forwardAccountTask_def Let_def)
  then show ?thesis using adv by simp
qed

lemma forwardAccountTask_cursor:
  assumes "forwardAccountTask rlp tr s = Inr s'" and "res (accountTaskAt s tr) = Some r"
  shows "\<exists>k\<le>length (accountResponse.hashes r).
      (\<forall>j<k. incomplete (accountTaskAt s tr) j = Inr False)
    \<and> (k < length (accountResponse.hashes r) \<longrightarrow> incomplete (accountTaskAt s tr) k = Inr True)
    \<and> accountTaskAt s' = (accountTaskAt s)
         (tr := (accountTaskAt s tr)
            \<lparr>Next := (if k = 0 then Next (accountTaskAt s tr)
                       else BigToHash (Big (accountResponse.hashes r ! (k - 1)) + 1)),
             done_flag := (if k = length (accountResponse.hashes r) then \<not> accountResponse.cont r
                           else done_flag (accountTaskAt s tr)),
             res := None\<rparr>)
    \<and> tasks s' = tasks s"
proof -
  let ?t = "accountTaskAt s tr"
  from forwardAccountTask_unfold [OF assms] obtain t2 fin where
    adv: "advanceNext (?t\<lparr>res := None\<rparr>) (enumerate 0 (accountResponse.hashes r)) = Inr (t2, fin)"
    and heap: "accountTaskAt s' = (accountTaskAt s)
         (tr := (if fin then t2\<lparr>done_flag := \<not> accountResponse.cont r\<rparr> else t2))"
    and ts: "tasks s' = tasks s"
    by blast
  have inc: "incomplete (?t\<lparr>res := None\<rparr>) j = incomplete ?t j" for j
    by (simp add: incomplete_def split: sum.splits)
  from advanceNext_spec [OF adv] obtain k where k: "k \<le> length (accountResponse.hashes r)"
    "\<forall>j<k. incomplete ?t j = Inr False"
    "k < length (accountResponse.hashes r) \<longrightarrow> incomplete ?t k = Inr True"
    "fin = (k = length (accountResponse.hashes r))"
    "t2 = (if k = 0 then ?t\<lparr>res := None\<rparr>
           else ?t\<lparr>res := None\<rparr>\<lparr>Next := BigToHash (Big (accountResponse.hashes r ! (k - 1)) + 1)\<rparr>)"
    by (auto simp: inc)
  have "(if fin then t2\<lparr>done_flag := \<not> accountResponse.cont r\<rparr> else t2)
      = ?t\<lparr>Next := (if k = 0 then Next ?t
                       else BigToHash (Big (accountResponse.hashes r ! (k - 1)) + 1)),
             done_flag := (if k = length (accountResponse.hashes r) then \<not> accountResponse.cont r
                           else done_flag ?t),
             res := None\<rparr>"
    using k(4,5) by auto
  with heap k(1,2,3) ts show ?thesis by (intro exI [of _ k]) simp
qed

text \<open>
  C3 (as amended). When a task with a response is forwarded, let \<open>k\<close> be the first
  index whose \<open>needCode\<close> or \<open>needState\<close> flag is set (the number of delivered hashes
  when there is none). \<open>Next\<close> becomes the hash at index \<open>k - 1\<close> plus one, the last
  hash before the first incomplete one, and stays as it was when \<open>k = 0\<close>. The task is
  marked done exactly when no index is incomplete and the response had no
  continuation; when an index is incomplete the flag keeps its value.
\<close>

theorem forwardAccountTask_advances_Next:
  assumes "forwardAccountTask rlp tr s = Inr s'" and "res (accountTaskAt s tr) = Some r"
  shows "\<exists>k\<le>length (accountResponse.hashes r).
      (\<forall>j<k. incomplete (accountTaskAt s tr) j = Inr False)
    \<and> (k < length (accountResponse.hashes r) \<longrightarrow> incomplete (accountTaskAt s tr) k = Inr True)
    \<and> Next (accountTaskAt s' tr) =
        (if k = 0 then Next (accountTaskAt s tr)
         else BigToHash (Big (accountResponse.hashes r ! (k - 1)) + 1))
    \<and> done_flag (accountTaskAt s' tr) =
        (if k = length (accountResponse.hashes r) then \<not> accountResponse.cont r
         else done_flag (accountTaskAt s tr))
    \<and> Last (accountTaskAt s' tr) = Last (accountTaskAt s tr)
    \<and> res (accountTaskAt s' tr) = None"
proof -
  from forwardAccountTask_cursor [OF assms] obtain k where
    "k \<le> length (accountResponse.hashes r)"
    "\<forall>j<k. incomplete (accountTaskAt s tr) j = Inr False"
    "k < length (accountResponse.hashes r) \<longrightarrow> incomplete (accountTaskAt s tr) k = Inr True"
    "accountTaskAt s' = (accountTaskAt s)
         (tr := (accountTaskAt s tr)
            \<lparr>Next := (if k = 0 then Next (accountTaskAt s tr)
                       else BigToHash (Big (accountResponse.hashes r ! (k - 1)) + 1)),
             done_flag := (if k = length (accountResponse.hashes r) then \<not> accountResponse.cont r
                           else done_flag (accountTaskAt s tr)),
             res := None\<rparr>)"
    by blast
  then show ?thesis by (intro exI [of _ k]) simp
qed

lemma forwardState_run:
  "\<not> isl (forwardAccountTask (\<lambda>_. []) 1 forwardState)
   \<and> Next (accountTaskAt (projr (forwardAccountTask (\<lambda>_. []) 1 forwardState)) 1) = 6
   \<and> done_flag (accountTaskAt (projr (forwardAccountTask (\<lambda>_. []) 1 forwardState)) 1) = False"
  by (simp add: forwardAccountTask_def forwardState_def NewSyncer_def twoAccounts_def
        forwardBatch_def incomplete_def index_def persistNodes_def Let_def enumerate_eq_zip
        upt_rec BigToHash_def Big_def emptyDB_def batchWrite_def)

theorem forwardAccountTask_advances_Next_witness:
  "forwardAccountTask (\<lambda>_. []) 1 forwardState
     = Inr (projr (forwardAccountTask (\<lambda>_. []) 1 forwardState))
   \<and> res (accountTaskAt forwardState 1) = Some twoAccounts
   \<and> Last (accountTaskAt (projr (forwardAccountTask (\<lambda>_. []) 1 forwardState)) 1) = maxHash
   \<and> res (accountTaskAt (projr (forwardAccountTask (\<lambda>_. []) 1 forwardState)) 1) = None"
proof -
  have h1: "forwardAccountTask (\<lambda>_. []) 1 forwardState
     = Inr (projr (forwardAccountTask (\<lambda>_. []) 1 forwardState))"
    using forwardState_run by simp
  have h2: "res (accountTaskAt forwardState 1) = Some twoAccounts"
    by (simp add: forwardState_def)
  have l: "Last (accountTaskAt forwardState 1) = maxHash"
    by (simp add: forwardState_def)
  from forwardAccountTask_advances_Next [OF h1 h2] h1 h2 l show ?thesis by auto
qed

text \<open>
  C3 as stated fails: here index 1 is the first incomplete one and its hash is 9, yet
  the forward leaves \<open>Next\<close> at 6, one past the hash at index 0, not at 10.
\<close>

theorem forwardAccountTask_counterexample:
  "incomplete (accountTaskAt forwardState 1) 0 = Inr False
   \<and> incomplete (accountTaskAt forwardState 1) 1 = Inr True
   \<and> res (accountTaskAt forwardState 1) = Some twoAccounts
   \<and> accountResponse.hashes twoAccounts ! 1 = 9
   \<and> \<not> isl (forwardAccountTask (\<lambda>_. []) 1 forwardState)
   \<and> Next (accountTaskAt (projr (forwardAccountTask (\<lambda>_. []) 1 forwardState)) 1) = 6
   \<and> Next (accountTaskAt (projr (forwardAccountTask (\<lambda>_. []) 1 forwardState)) 1)
       \<noteq> BigToHash (Big 9 + 1)"
  using forwardState_run
  by (simp add: BigToHash_def Big_def) (simp add: forwardState_def twoAccounts_def incomplete_def index_def)

lemma frame_refl: "frame s s"
  by (simp add: frame_def)

lemma frame_trans: "frame s s1 \<Longrightarrow> frame s1 s2 \<Longrightarrow> frame s s2"
proof -
  assume a: "frame s s1" and b: "frame s1 s2"
  have "s2 = s1\<lparr>accountTaskAt := accountTaskAt s2, storageTaskAt := storageTaskAt s2,
            nextRef := nextRef s2\<rparr>"
    using b by (simp add: frame_def)
  also have "s1 = s\<lparr>accountTaskAt := accountTaskAt s1, storageTaskAt := storageTaskAt s1,
            nextRef := nextRef s1\<rparr>"
    using a by (simp add: frame_def)
  finally show ?thesis by (simp add: frame_def)
qed

lemma allocStorageTasks_spec:
  "allocStorageTasks ivs s = (rs, s') \<Longrightarrow>
     frame s s' \<and> nextRef s \<le> nextRef s'
   \<and> accountTaskAt s' = accountTaskAt s
   \<and> (\<forall>r<nextRef s. storageTaskAt s' r = storageTaskAt s r)
   \<and> (\<forall>r\<in>set rs. r < nextRef s')
   \<and> map (storageTaskJSON s') rs = ivs"
proof (induction ivs arbitrary: s rs s')
  case Nil
  then show ?case by (simp add: frame_refl)
next
  case (Cons iv ivs)
  define s1 where "s1 = s\<lparr>storageTaskAt := (storageTaskAt s)
                    (nextRef s := \<lparr>Next = Next iv, Last = Last iv, req = None, done_flag = False,
                           storageTask.root = 0\<rparr>),
                  nextRef := Suc (nextRef s)\<rparr>"
  obtain rs1 s2 where rec: "allocStorageTasks ivs s1 = (rs1, s2)"
    by (cases "allocStorageTasks ivs s1")
  have res: "rs = nextRef s # rs1" "s' = s2"
    using Cons.prems rec by (simp_all add: Let_def s1_def)
  have f1: "frame s s1" by (simp add: frame_def s1_def)
  from Cons.IH [OF rec]
  have ih: "frame s1 s2" "nextRef s1 \<le> nextRef s2" "accountTaskAt s2 = accountTaskAt s1"
    "\<forall>r<nextRef s1. storageTaskAt s2 r = storageTaskAt s1 r"
    "\<forall>r\<in>set rs1. r < nextRef s2" "map (storageTaskJSON s2) rs1 = ivs"
    by blast+
  have n1: "nextRef s1 = Suc (nextRef s)" by (simp add: s1_def)
  have "storageTaskAt s2 (nextRef s) = storageTaskAt s1 (nextRef s)"
    using ih(4) n1 by simp
  then have hd: "storageTaskJSON s2 (nextRef s) = iv"
    by (simp add: storageTaskJSON_def s1_def)
  have old: "\<forall>r<nextRef s. storageTaskAt s2 r = storageTaskAt s r"
    using ih(4) n1 by (simp add: s1_def)
  show ?case
    unfolding res
    using frame_trans [OF f1 ih(1)] ih(2,3,5,6) n1 hd old
    by (auto simp: s1_def)
qed

lemma storageTaskJSON_eq:
  "storageTaskAt s' = storageTaskAt s \<Longrightarrow> storageTaskJSON s' = storageTaskJSON s"
  by (rule ext) (simp add: storageTaskJSON_def)

lemma storageTaskJSON_cong:
  "\<forall>r\<in>set rs. storageTaskAt s' r = storageTaskAt s r \<Longrightarrow>
   map (storageTaskJSON s') rs = map (storageTaskJSON s) rs"
  by (simp add: storageTaskJSON_def)

lemma subTasksJSON_cong:
  "\<forall>(h, sts)\<in>set subs. \<forall>r\<in>set sts. storageTaskAt s' r = storageTaskAt s r \<Longrightarrow>
   subTasksJSON s' subs = subTasksJSON s subs"
  unfolding subTasksJSON_def
  by (rule map_cong [OF refl]) (auto intro!: storageTaskJSON_cong)

lemma allocSubTasks_spec:
  "allocSubTasks js s = (subs, s') \<Longrightarrow>
     frame s s' \<and> nextRef s \<le> nextRef s'
   \<and> accountTaskAt s' = accountTaskAt s
   \<and> (\<forall>r<nextRef s. storageTaskAt s' r = storageTaskAt s r)
   \<and> (\<forall>(h, sts)\<in>set subs. \<forall>r\<in>set sts. r < nextRef s')
   \<and> subTasksJSON s' subs = js"
proof (induction js arbitrary: s subs s')
  case Nil
  then show ?case by (simp add: frame_refl subTasksJSON_def)
next
  case (Cons j js)
  obtain h ivs where j: "j = (h, ivs)" by (cases j)
  obtain rs s1 where a: "allocStorageTasks ivs s = (rs, s1)"
    by (cases "allocStorageTasks ivs s")
  obtain subs1 s2 where rec: "allocSubTasks js s1 = (subs1, s2)"
    by (cases "allocSubTasks js s1")
  have res: "subs = (h, rs) # subs1" "s' = s2"
    using Cons.prems j a rec by simp_all
  from allocStorageTasks_spec [OF a]
  have st: "frame s s1" "nextRef s \<le> nextRef s1" "accountTaskAt s1 = accountTaskAt s"
    "\<forall>r<nextRef s. storageTaskAt s1 r = storageTaskAt s r"
    "\<forall>r\<in>set rs. r < nextRef s1" "map (storageTaskJSON s1) rs = ivs"
    by blast+
  from Cons.IH [OF rec]
  have ih: "frame s1 s2" "nextRef s1 \<le> nextRef s2" "accountTaskAt s2 = accountTaskAt s1"
    "\<forall>r<nextRef s1. storageTaskAt s2 r = storageTaskAt s1 r"
    "\<forall>(h, sts)\<in>set subs1. \<forall>r\<in>set sts. r < nextRef s2"
    "subTasksJSON s2 subs1 = js"
    by blast+
  have "map (storageTaskJSON s2) rs = map (storageTaskJSON s1) rs"
    using st(5) ih(4) by (intro storageTaskJSON_cong) simp
  then have hd: "map (storageTaskJSON s2) rs = ivs" using st(6) by simp
  have old: "\<forall>r<nextRef s. storageTaskAt s2 r = storageTaskAt s r"
    using st(2,4) ih(4) by simp
  have bound: "\<forall>r\<in>set rs. r < nextRef s2" using st(5) ih(2) by fastforce
  show ?case
    unfolding res
    using frame_trans [OF st(1) ih(1)] st(2,3) ih(2,3,5,6) hd old bound j
    by (auto simp: subTasksJSON_def)
qed

lemma taskJSON_alt:
  "taskJSON s r = \<lparr>Next = Next (accountTaskAt s r), Last = Last (accountTaskAt s r),
      SubTasksJSON = subTasksJSON s (SubTasks (accountTaskAt s r))\<rparr>"
  by (simp add: taskJSON_def subTasksJSON_def)

lemma taskJSON_cong:
  assumes "accountTaskAt s' r = accountTaskAt s r"
    and "\<forall>(h, sts)\<in>set (SubTasks (accountTaskAt s r)). \<forall>q\<in>set sts.
           storageTaskAt s' q = storageTaskAt s q"
  shows "taskJSON s' r = taskJSON s r"
  using assms subTasksJSON_cong [of "SubTasks (accountTaskAt s r)" s' s]
  by (simp add: taskJSON_alt)

lemma allocTasks_spec:
  "allocTasks js s = (rs, s') \<Longrightarrow>
     frame s s' \<and> nextRef s \<le> nextRef s'
   \<and> (\<forall>r<nextRef s. storageTaskAt s' r = storageTaskAt s r)
   \<and> (\<forall>r<nextRef s. accountTaskAt s' r = accountTaskAt s r)
   \<and> allocated s' rs
   \<and> map (taskJSON s') rs = js"
proof (induction js arbitrary: s rs s')
  case Nil
  then show ?case by (simp add: frame_refl allocated_def)
next
  case (Cons j js)
  obtain subs s1 where a: "allocSubTasks (SubTasksJSON j) s = (subs, s1)"
    by (cases "allocSubTasks (SubTasksJSON j) s")
  define s2 where "s2 = s1\<lparr>accountTaskAt := (accountTaskAt s1)
                     (nextRef s1 := \<lparr>Next = Next j, Last = Last j, req = None, done_flag = False,
                            SubTasks = subs, res = None, pend = 0, needCode = [],
                            needState = [], needHeal = [], codeTasks = [],
                            stateTasks = []\<rparr>),
                   nextRef := Suc (nextRef s1)\<rparr>"
  obtain rs1 s3 where rec: "allocTasks js s2 = (rs1, s3)"
    by (cases "allocTasks js s2")
  have res: "rs = nextRef s1 # rs1" "s' = s3"
    using Cons.prems a rec by (simp_all add: Let_def s2_def)
  from allocSubTasks_spec [OF a]
  have st: "frame s s1" "nextRef s \<le> nextRef s1" "accountTaskAt s1 = accountTaskAt s"
    "\<forall>r<nextRef s. storageTaskAt s1 r = storageTaskAt s r"
    "\<forall>(h, sts)\<in>set subs. \<forall>r\<in>set sts. r < nextRef s1"
    "subTasksJSON s1 subs = SubTasksJSON j"
    by blast+
  have f2: "frame s1 s2" by (simp add: frame_def s2_def)
  have n2: "nextRef s2 = Suc (nextRef s1)" by (simp add: s2_def)
  from Cons.IH [OF rec]
  have ih: "frame s2 s3" "nextRef s2 \<le> nextRef s3"
    "\<forall>r<nextRef s2. storageTaskAt s3 r = storageTaskAt s2 r"
    "\<forall>r<nextRef s2. accountTaskAt s3 r = accountTaskAt s2 r"
    "allocated s3 rs1" "map (taskJSON s3) rs1 = js"
    by blast+
  have at: "accountTaskAt s3 (nextRef s1) = accountTaskAt s2 (nextRef s1)"
    using ih(4) n2 by simp
  have sub2: "SubTasks (accountTaskAt s2 (nextRef s1)) = subs" by (simp add: s2_def)
  have sts: "\<forall>(h, sts)\<in>set subs. \<forall>q\<in>set sts. storageTaskAt s3 q = storageTaskAt s2 q"
    using st(5) ih(3) n2 by fastforce
  have "taskJSON s3 (nextRef s1) = taskJSON s2 (nextRef s1)"
    by (rule taskJSON_cong [OF at]) (simp add: sub2 sts)
  also have "taskJSON s2 (nextRef s1) = \<lparr>Next = Next j, Last = Last j,
      SubTasksJSON = subTasksJSON s1 subs\<rparr>"
  proof -
    have "storageTaskJSON s2 = storageTaskJSON s1"
      by (rule storageTaskJSON_eq) (simp add: s2_def)
    then show ?thesis by (simp add: taskJSON_alt subTasksJSON_def) (simp add: s2_def)
  qed
  also have "\<dots> = j" using st(6) by simp
  finally have hd: "taskJSON s3 (nextRef s1) = j" .
  have al: "allocated s3 (nextRef s1 # rs1)"
    using ih(5) ih(2) n2 at sub2 st(5) by (fastforce simp: allocated_def)
  have old1: "\<forall>r<nextRef s. storageTaskAt s3 r = storageTaskAt s r"
    using st(2,4) ih(3) n2 by (simp add: s2_def)
  have old2: "\<forall>r<nextRef s. accountTaskAt s3 r = accountTaskAt s r"
    using st(2,3) ih(4) n2 by (simp add: s2_def)
  have "frame s s3" using frame_trans [OF frame_trans [OF st(1) f2] ih(1)] .
  moreover have "nextRef s \<le> nextRef s3" using st(2) ih(2) n2 by simp
  ultimately show ?case
    unfolding res using old1 old2 al hd ih(6) by simp
qed

lemma frame_counters:
  assumes "frame s s'"
  shows "db s' = db s" "trienodeHealDups s' = trienodeHealDups s"
    "trienodeHealNops s' = trienodeHealNops s" "bytecodeHealDups s' = bytecodeHealDups s"
    "bytecodeHealNops s' = bytecodeHealNops s"
proof -
  have e: "s' = s\<lparr>accountTaskAt := accountTaskAt s', storageTaskAt := storageTaskAt s',
            nextRef := nextRef s'\<rparr>"
    using assms by (simp add: frame_def)
  show "db s' = db s" by (subst e) simp
  show "trienodeHealDups s' = trienodeHealDups s" by (subst e) simp
  show "trienodeHealNops s' = trienodeHealNops s" by (subst e) simp
  show "bytecodeHealDups s' = bytecodeHealDups s" by (subst e) simp
  show "bytecodeHealNops s' = bytecodeHealNops s" by (subst e) simp
qed

lemma saveSyncStatus_status:
  "syncStatus (db (saveSyncStatus s)) = Some (Encoded (savedProgress s))"
  by (simp add: saveSyncStatus_def savedProgress_def)

lemma saveSyncStatus_counters:
  "trienodeHealDups (saveSyncStatus s) = trienodeHealDups s"
  "trienodeHealNops (saveSyncStatus s) = trienodeHealNops s"
  "bytecodeHealDups (saveSyncStatus s) = bytecodeHealDups s"
  "bytecodeHealNops (saveSyncStatus s) = bytecodeHealNops s"
  by (simp_all add: saveSyncStatus_def)

lemma load_saved:
  assumes "syncStatus (db s0) = Some (Encoded p)"
  shows "map (taskJSON (loadSyncStatus s0)) (tasks (loadSyncStatus s0)) = Tasks p
    \<and> accountSynced (loadSyncStatus s0) = AccountSynced p
    \<and> accountBytes (loadSyncStatus s0) = AccountBytes p
    \<and> bytecodeSynced (loadSyncStatus s0) = BytecodeSynced p
    \<and> bytecodeBytes (loadSyncStatus s0) = BytecodeBytes p
    \<and> storageSynced (loadSyncStatus s0) = StorageSynced p
    \<and> storageBytes (loadSyncStatus s0) = StorageBytes p
    \<and> trienodeHealSynced (loadSyncStatus s0) = TrienodeHealSynced p
    \<and> trienodeHealBytes (loadSyncStatus s0) = TrienodeHealBytes p
    \<and> bytecodeHealSynced (loadSyncStatus s0) = BytecodeHealSynced p
    \<and> bytecodeHealBytes (loadSyncStatus s0) = BytecodeHealBytes p
    \<and> trienodeHealDups (loadSyncStatus s0) = trienodeHealDups s0
    \<and> trienodeHealNops (loadSyncStatus s0) = trienodeHealNops s0
    \<and> bytecodeHealDups (loadSyncStatus s0) = bytecodeHealDups s0
    \<and> bytecodeHealNops (loadSyncStatus s0) = bytecodeHealNops s0"
proof -
  obtain ts s1 where a: "allocTasks (Tasks p) s0 = (ts, s1)"
    by (cases "allocTasks (Tasks p) s0")
  define s2 where "s2 = s1\<lparr>tasks := ts,
                  snapped := (length ts = 0),
                  accountSynced := AccountSynced p,
                  accountBytes := AccountBytes p,
                  bytecodeSynced := BytecodeSynced p,
                  bytecodeBytes := BytecodeBytes p,
                  storageSynced := StorageSynced p,
                  storageBytes := StorageBytes p,
                  trienodeHealSynced := TrienodeHealSynced p,
                  trienodeHealBytes := TrienodeHealBytes p,
                  bytecodeHealSynced := BytecodeHealSynced p,
                  bytecodeHealBytes := BytecodeHealBytes p\<rparr>"
  have l: "loadSyncStatus s0 = s2"
    using assms a by (simp add: loadSyncStatus_def s2_def)
  from allocTasks_spec [OF a] have f: "frame s0 s1" and m: "map (taskJSON s1) ts = Tasks p"
    by blast+
  have "storageTaskJSON s2 = storageTaskJSON s1"
    by (rule storageTaskJSON_eq) (simp add: s2_def)
  then have "taskJSON s2 = taskJSON s1"
    by (intro ext) (simp add: taskJSON_def, simp add: s2_def)
  then have "map (taskJSON s2) (tasks s2) = Tasks p"
    using m by (simp add: s2_def)
  then show ?thesis
    unfolding l using frame_counters [OF f] by (simp add: s2_def)
qed

text \<open>
  C7. Saving and then loading is the identity on the serialized view of the task list
  (\<open>Next\<close>, \<open>Last\<close> and the bounds of the sub-tasks of every task, in order) and on
  the counters. A syncer other than the one that saved, loading the same record, gets
  the same task intervals and the ten counters the record carries.
\<close>

theorem saveSyncStatus_loadSyncStatus_identity:
  fixes s :: "'a syncer"
  shows "map (taskJSON (loadSyncStatus (saveSyncStatus s))) (tasks (loadSyncStatus (saveSyncStatus s)))
     = map (taskJSON s) (tasks s)
   \<and> accountSynced (loadSyncStatus (saveSyncStatus s)) = accountSynced s
   \<and> accountBytes (loadSyncStatus (saveSyncStatus s)) = accountBytes s
   \<and> bytecodeSynced (loadSyncStatus (saveSyncStatus s)) = bytecodeSynced s
   \<and> bytecodeBytes (loadSyncStatus (saveSyncStatus s)) = bytecodeBytes s
   \<and> storageSynced (loadSyncStatus (saveSyncStatus s)) = storageSynced s
   \<and> storageBytes (loadSyncStatus (saveSyncStatus s)) = storageBytes s
   \<and> trienodeHealSynced (loadSyncStatus (saveSyncStatus s)) = trienodeHealSynced s
   \<and> trienodeHealBytes (loadSyncStatus (saveSyncStatus s)) = trienodeHealBytes s
   \<and> trienodeHealDups (loadSyncStatus (saveSyncStatus s)) = trienodeHealDups s
   \<and> trienodeHealNops (loadSyncStatus (saveSyncStatus s)) = trienodeHealNops s
   \<and> bytecodeHealSynced (loadSyncStatus (saveSyncStatus s)) = bytecodeHealSynced s
   \<and> bytecodeHealBytes (loadSyncStatus (saveSyncStatus s)) = bytecodeHealBytes s
   \<and> bytecodeHealDups (loadSyncStatus (saveSyncStatus s)) = bytecodeHealDups s
   \<and> bytecodeHealNops (loadSyncStatus (saveSyncStatus s)) = bytecodeHealNops s
   \<and> (\<forall>s0 :: 'a syncer. syncStatus (db s0) = syncStatus (db (saveSyncStatus s)) \<longrightarrow>
          map (taskJSON (loadSyncStatus s0)) (tasks (loadSyncStatus s0)) = map (taskJSON s) (tasks s)
        \<and> accountSynced (loadSyncStatus s0) = accountSynced s
        \<and> accountBytes (loadSyncStatus s0) = accountBytes s
        \<and> bytecodeSynced (loadSyncStatus s0) = bytecodeSynced s
        \<and> bytecodeBytes (loadSyncStatus s0) = bytecodeBytes s
        \<and> storageSynced (loadSyncStatus s0) = storageSynced s
        \<and> storageBytes (loadSyncStatus s0) = storageBytes s
        \<and> trienodeHealSynced (loadSyncStatus s0) = trienodeHealSynced s
        \<and> trienodeHealBytes (loadSyncStatus s0) = trienodeHealBytes s
        \<and> bytecodeHealSynced (loadSyncStatus s0) = bytecodeHealSynced s
        \<and> bytecodeHealBytes (loadSyncStatus s0) = bytecodeHealBytes s)"
proof -
  have other: "map (taskJSON (loadSyncStatus s0)) (tasks (loadSyncStatus s0)) = map (taskJSON s) (tasks s)
        \<and> accountSynced (loadSyncStatus s0) = accountSynced s
        \<and> accountBytes (loadSyncStatus s0) = accountBytes s
        \<and> bytecodeSynced (loadSyncStatus s0) = bytecodeSynced s
        \<and> bytecodeBytes (loadSyncStatus s0) = bytecodeBytes s
        \<and> storageSynced (loadSyncStatus s0) = storageSynced s
        \<and> storageBytes (loadSyncStatus s0) = storageBytes s
        \<and> trienodeHealSynced (loadSyncStatus s0) = trienodeHealSynced s
        \<and> trienodeHealBytes (loadSyncStatus s0) = trienodeHealBytes s
        \<and> bytecodeHealSynced (loadSyncStatus s0) = bytecodeHealSynced s
        \<and> bytecodeHealBytes (loadSyncStatus s0) = bytecodeHealBytes s
        \<and> trienodeHealDups (loadSyncStatus s0) = trienodeHealDups s0
        \<and> trienodeHealNops (loadSyncStatus s0) = trienodeHealNops s0
        \<and> bytecodeHealDups (loadSyncStatus s0) = bytecodeHealDups s0
        \<and> bytecodeHealNops (loadSyncStatus s0) = bytecodeHealNops s0"
    if "syncStatus (db s0) = syncStatus (db (saveSyncStatus s))" for s0 :: "'a syncer"
  proof -
    from that have "syncStatus (db s0) = Some (Encoded (savedProgress s))"
      by (simp only: saveSyncStatus_status)
    from load_saved [OF this] show ?thesis by (simp add: savedProgress_def)
  qed
  from other [of "saveSyncStatus s"] other show ?thesis
    by (simp add: saveSyncStatus_counters)
qed

lemma midSync_saved:
  "syncStatus (db (NewSyncer (db (saveSyncStatus midSync)) ())) = syncStatus (db (saveSyncStatus midSync))"
  by (simp add: NewSyncer_def)

theorem saveSyncStatus_loadSyncStatus_identity_witness:
  "syncStatus (db (NewSyncer (db (saveSyncStatus midSync)) ())) = syncStatus (db (saveSyncStatus midSync))
   \<and> map (taskJSON (loadSyncStatus (NewSyncer (db (saveSyncStatus midSync)) ())))
          (tasks (loadSyncStatus (NewSyncer (db (saveSyncStatus midSync)) ())))
       = [\<lparr>Next = 0x10, Last = maxHash,
           SubTasksJSON = [(0xaa, [\<lparr>Next = 0x20, Last = 0x7f\<rparr>, \<lparr>Next = 0x80, Last = maxHash\<rparr>])]\<rparr>]
   \<and> accountSynced (loadSyncStatus (NewSyncer (db (saveSyncStatus midSync)) ())) = 7
   \<and> accountBytes (loadSyncStatus (NewSyncer (db (saveSyncStatus midSync)) ())) = 700
   \<and> trienodeHealDups (loadSyncStatus (saveSyncStatus midSync)) = 3"
proof -
  have t: "map (taskJSON midSync) (tasks midSync)
       = [\<lparr>Next = 0x10, Last = maxHash,
           SubTasksJSON = [(0xaa, [\<lparr>Next = 0x20, Last = 0x7f\<rparr>, \<lparr>Next = 0x80, Last = maxHash\<rparr>])]\<rparr>]"
    by (simp add: midSync_def taskJSON_def storageTaskJSON_def)
  have c: "accountSynced midSync = 7" "accountBytes midSync = 700" "trienodeHealDups midSync = 3"
    by (simp_all add: midSync_def)
  from saveSyncStatus_loadSyncStatus_identity [of midSync] midSync_saved t c
  show ?thesis by simp
qed

lemma set_fold_insert: "set (fold List.insert xs ys) = set xs \<union> set ys"
  by (induction xs arbitrary: ys) auto

lemma putAll_spec:
  "putAll (enumerate i ks) vs m = Inr m' \<Longrightarrow>
   map_of m' = map_of m ++ map_of (rev (zip ks (drop i vs)))"
proof (induction ks arbitrary: i m)
  case Nil
  then show ?case by simp
next
  case (Cons k ks)
  from Cons.prems have i: "i < length vs"
    by (auto simp: index_def split: if_splits)
  with Cons.prems have "putAll (enumerate (Suc i) ks) vs (AList.update k (vs ! i) m) = Inr m'"
    by (simp add: index_def)
  from Cons.IH [OF this]
  have "map_of m' = map_of (AList.update k (vs ! i) m) ++ map_of (rev (zip ks (drop (Suc i) vs)))" .
  moreover have "drop i vs = vs ! i # drop (Suc i) vs"
    using i by (simp add: Cons_nth_drop_Suc)
  ultimately show ?case
    by (simp add: update_conv' map_add_upd_left map_add_def fun_eq_iff split: option.splits)
qed

lemma putAll_total:
  "i + length ks \<le> length vs \<Longrightarrow> \<exists>m'. putAll (enumerate i ks) vs m = Inr m'"
  by (induction ks arbitrary: i m) (simp_all add: index_def)

lemma Stop_not_Armed: "snd (Stop t) \<noteq> Armed"
  by (cases t) (simp_all add: Stop_def)

lemma stale_cases: "stale q = Closed \<or> stale q = Open"
  by (cases "stale q") simp_all

lemma revertAccountRequest_spec:
  "\<exists>s'. revertAccountRequest r s = Inr s'
     \<and> (stale (accountRequestAt s r) = Closed \<longrightarrow> s' = s)
     \<and> (stale (accountRequestAt s r) = Open \<longrightarrow>
          stale (accountRequestAt s' r) = Closed
        \<and> timeout (accountRequestAt s' r) \<noteq> Armed
        \<and> accountReqs s' = (accountReqs s)(id_req (accountRequestAt s r) := None)
        \<and> req (accountTaskAt s' (accountRequest.task (accountRequestAt s r)))
            = (if req (accountTaskAt s (accountRequest.task (accountRequestAt s r))) = Some r
               then None
               else req (accountTaskAt s (accountRequest.task (accountRequestAt s r))))
        \<and> revertAccountRequest r s' = Inr s')"
proof (cases "stale (accountRequestAt s r)")
  case Closed
  then show ?thesis by (simp add: revertAccountRequest_def)
next
  case Open
  show ?thesis
  proof (cases "req (accountTaskAt s (accountRequest.task (accountRequestAt s r))) = Some r")
    case True
    with Open show ?thesis
      by (simp add: revertAccountRequest_def close_def Let_def Stop_not_Armed)
  next
    case False
    with Open show ?thesis
      by (simp add: revertAccountRequest_def close_def Let_def Stop_not_Armed)
  qed
qed

lemma revertBytecodeRequest_spec:
  "\<exists>s'. revertBytecodeRequest r s = Inr s'
     \<and> (stale (bytecodeRequestAt s r) = Closed \<longrightarrow> s' = s)
     \<and> (stale (bytecodeRequestAt s r) = Open \<longrightarrow>
          stale (bytecodeRequestAt s' r) = Closed
        \<and> timeout (bytecodeRequestAt s' r) \<noteq> Armed
        \<and> bytecodeReqs s' = (bytecodeReqs s)(id_req (bytecodeRequestAt s r) := None)
        \<and> set (codeTasks (accountTaskAt s' (bytecodeRequest.task (bytecodeRequestAt s r))))
            = set (bytecodeRequest.hashes (bytecodeRequestAt s r))
              \<union> set (codeTasks (accountTaskAt s (bytecodeRequest.task (bytecodeRequestAt s r))))
        \<and> revertBytecodeRequest r s' = Inr s')"
proof (cases "stale (bytecodeRequestAt s r)")
  case Closed
  then show ?thesis by (simp add: revertBytecodeRequest_def)
next
  case Open
  then show ?thesis
    by (simp add: revertBytecodeRequest_def close_def Let_def Stop_not_Armed set_fold_insert)
qed

lemma revertBytecodeHealRequest_spec:
  "\<exists>s'. revertBytecodeHealRequest r s = Inr s'
     \<and> (stale (bytecodeHealRequestAt s r) = Closed \<longrightarrow> s' = s)
     \<and> (stale (bytecodeHealRequestAt s r) = Open \<longrightarrow>
          stale (bytecodeHealRequestAt s' r) = Closed
        \<and> timeout (bytecodeHealRequestAt s' r) \<noteq> Armed
        \<and> bytecodeHealReqs s' = (bytecodeHealReqs s)(id_req (bytecodeHealRequestAt s r) := None)
        \<and> set (healCodeTasks (healTaskAt s' (bytecodeHealRequest.task (bytecodeHealRequestAt s r))))
            = set (bytecodeHealRequest.hashes (bytecodeHealRequestAt s r))
              \<union> set (healCodeTasks (healTaskAt s (bytecodeHealRequest.task (bytecodeHealRequestAt s r))))
        \<and> revertBytecodeHealRequest r s' = Inr s')"
proof (cases "stale (bytecodeHealRequestAt s r)")
  case Closed
  then show ?thesis by (simp add: revertBytecodeHealRequest_def)
next
  case Open
  then show ?thesis
    by (simp add: revertBytecodeHealRequest_def close_def Let_def Stop_not_Armed set_fold_insert)
qed

lemma revertStorageRequest_spec:
  assumes "length (storageRequest.accounts (storageRequestAt s r))
             \<le> length (storageRequest.roots (storageRequestAt s r))"
  shows "\<exists>s'. revertStorageRequest r s = Inr s'
     \<and> (stale (storageRequestAt s r) = Closed \<longrightarrow> s' = s)
     \<and> (stale (storageRequestAt s r) = Open \<longrightarrow>
          stale (storageRequestAt s' r) = Closed
        \<and> timeout (storageRequestAt s' r) \<noteq> Armed
        \<and> storageReqs s' = (storageReqs s)(id_req (storageRequestAt s r) := None)
        \<and> (case storageRequest.subTask (storageRequestAt s r) of
              Some st \<Rightarrow> req (storageTaskAt s' st) = None
            | None \<Rightarrow>
                map_of (stateTasks (accountTaskAt s' (storageRequest.mainTask (storageRequestAt s r))))
                  = map_of (stateTasks (accountTaskAt s (storageRequest.mainTask (storageRequestAt s r))))
                    ++ map_of (rev (zip (storageRequest.accounts (storageRequestAt s r))
                                        (storageRequest.roots (storageRequestAt s r)))))
        \<and> revertStorageRequest r s' = Inr s')"
proof (cases "stale (storageRequestAt s r)")
  case Closed
  then show ?thesis by (simp add: revertStorageRequest_def)
next
  case Open
  let ?q = "storageRequestAt s r"
  show ?thesis
  proof (cases "storageRequest.subTask ?q")
    case (Some st)
    with Open show ?thesis
      by (simp add: revertStorageRequest_def close_def Let_def Stop_not_Armed)
  next
    case None
    let ?t = "accountTaskAt s (storageRequest.mainTask ?q)"
    from putAll_total [of 0 "storageRequest.accounts ?q" "storageRequest.roots ?q" "stateTasks ?t"] assms
    obtain m where m: "putAll (enumerate 0 (storageRequest.accounts ?q)) (storageRequest.roots ?q)
                         (stateTasks ?t) = Inr m"
      by auto
    from putAll_spec [OF m]
    have "map_of m = map_of (stateTasks ?t)
            ++ map_of (rev (zip (storageRequest.accounts ?q) (storageRequest.roots ?q)))"
      by simp
    with Open None m show ?thesis
      by (simp add: revertStorageRequest_def close_def Let_def Stop_not_Armed)
  qed
qed

lemma revertTrienodeHealRequest_spec:
  assumes "length (trienodeHealRequest.hashes (trienodeHealRequestAt s r))
             \<le> length (trienodeHealRequest.paths (trienodeHealRequestAt s r))"
  shows "\<exists>s'. revertTrienodeHealRequest r s = Inr s'
     \<and> (stale (trienodeHealRequestAt s r) = Closed \<longrightarrow> s' = s)
     \<and> (stale (trienodeHealRequestAt s r) = Open \<longrightarrow>
          stale (trienodeHealRequestAt s' r) = Closed
        \<and> timeout (trienodeHealRequestAt s' r) \<noteq> Armed
        \<and> trienodeHealReqs s' = (trienodeHealReqs s)(id_req (trienodeHealRequestAt s r) := None)
        \<and> map_of (trieTasks (healTaskAt s' (trienodeHealRequest.task (trienodeHealRequestAt s r))))
            = map_of (trieTasks (healTaskAt s (trienodeHealRequest.task (trienodeHealRequestAt s r))))
              ++ map_of (rev (zip (trienodeHealRequest.hashes (trienodeHealRequestAt s r))
                                  (trienodeHealRequest.paths (trienodeHealRequestAt s r))))
        \<and> revertTrienodeHealRequest r s' = Inr s')"
proof (cases "stale (trienodeHealRequestAt s r)")
  case Closed
  then show ?thesis by (simp add: revertTrienodeHealRequest_def)
next
  case Open
  let ?q = "trienodeHealRequestAt s r"
  let ?t = "healTaskAt s (trienodeHealRequest.task ?q)"
  from putAll_total [of 0 "trienodeHealRequest.hashes ?q" "trienodeHealRequest.paths ?q" "trieTasks ?t"] assms
  obtain m where m: "putAll (enumerate 0 (trienodeHealRequest.hashes ?q)) (trienodeHealRequest.paths ?q)
                       (trieTasks ?t) = Inr m"
    by auto
  from putAll_spec [OF m]
  have "map_of m = map_of (trieTasks ?t)
          ++ map_of (rev (zip (trienodeHealRequest.hashes ?q) (trienodeHealRequest.paths ?q)))"
    by simp
  with Open m show ?thesis
    by (simp add: revertTrienodeHealRequest_def close_def Let_def Stop_not_Armed)
qed

text \<open>
  C6 (as amended). Every revert returns without closing a closed signal. On a request
  whose stale signal is closed it changes nothing; otherwise it closes the signal,
  removes the request's id from the live table of its class, stops the timer and
  restores the fragments, and a second revert of the request changes nothing. The
  fragments: for an account request the task's request slot is cleared if it holds
  this very request, and is left as it is when it holds another one; for a bytecode
  request every requested hash is back in \<open>codeTasks\<close>; for a storage request the chunk's
  request slot is cleared (large contract) or every account is back in \<open>stateTasks\<close>
  with its root (small contracts); for a trie node heal request every hash is back in
  \<open>trieTasks\<close> with its path; for a bytecode heal request every hash is back in the
  healer's \<open>codeTasks\<close>. For the two classes that re-insert pairs, the request carries
  a root (a path) for each of its accounts (hashes).
\<close>

theorem revert_restores_fragments:
  "(\<exists>s'. revertAccountRequest r s = Inr s'
     \<and> (stale (accountRequestAt s r) = Closed \<longrightarrow> s' = s)
     \<and> (stale (accountRequestAt s r) = Open \<longrightarrow>
          stale (accountRequestAt s' r) = Closed
        \<and> timeout (accountRequestAt s' r) \<noteq> Armed
        \<and> accountReqs s' = (accountReqs s)(id_req (accountRequestAt s r) := None)
        \<and> req (accountTaskAt s' (accountRequest.task (accountRequestAt s r)))
            = (if req (accountTaskAt s (accountRequest.task (accountRequestAt s r))) = Some r
               then None
               else req (accountTaskAt s (accountRequest.task (accountRequestAt s r))))
        \<and> revertAccountRequest r s' = Inr s'))
   \<and> (\<exists>s'. revertBytecodeRequest r s = Inr s'
     \<and> (stale (bytecodeRequestAt s r) = Closed \<longrightarrow> s' = s)
     \<and> (stale (bytecodeRequestAt s r) = Open \<longrightarrow>
          stale (bytecodeRequestAt s' r) = Closed
        \<and> timeout (bytecodeRequestAt s' r) \<noteq> Armed
        \<and> bytecodeReqs s' = (bytecodeReqs s)(id_req (bytecodeRequestAt s r) := None)
        \<and> set (codeTasks (accountTaskAt s' (bytecodeRequest.task (bytecodeRequestAt s r))))
            = set (bytecodeRequest.hashes (bytecodeRequestAt s r))
              \<union> set (codeTasks (accountTaskAt s (bytecodeRequest.task (bytecodeRequestAt s r))))
        \<and> revertBytecodeRequest r s' = Inr s'))
   \<and> (length (storageRequest.accounts (storageRequestAt s r))
             \<le> length (storageRequest.roots (storageRequestAt s r)) \<longrightarrow>
       (\<exists>s'. revertStorageRequest r s = Inr s'
     \<and> (stale (storageRequestAt s r) = Closed \<longrightarrow> s' = s)
     \<and> (stale (storageRequestAt s r) = Open \<longrightarrow>
          stale (storageRequestAt s' r) = Closed
        \<and> timeout (storageRequestAt s' r) \<noteq> Armed
        \<and> storageReqs s' = (storageReqs s)(id_req (storageRequestAt s r) := None)
        \<and> (case storageRequest.subTask (storageRequestAt s r) of
              Some st \<Rightarrow> req (storageTaskAt s' st) = None
            | None \<Rightarrow>
                map_of (stateTasks (accountTaskAt s' (storageRequest.mainTask (storageRequestAt s r))))
                  = map_of (stateTasks (accountTaskAt s (storageRequest.mainTask (storageRequestAt s r))))
                    ++ map_of (rev (zip (storageRequest.accounts (storageRequestAt s r))
                                        (storageRequest.roots (storageRequestAt s r)))))
        \<and> revertStorageRequest r s' = Inr s')))
   \<and> (length (trienodeHealRequest.hashes (trienodeHealRequestAt s r))
             \<le> length (trienodeHealRequest.paths (trienodeHealRequestAt s r)) \<longrightarrow>
       (\<exists>s'. revertTrienodeHealRequest r s = Inr s'
     \<and> (stale (trienodeHealRequestAt s r) = Closed \<longrightarrow> s' = s)
     \<and> (stale (trienodeHealRequestAt s r) = Open \<longrightarrow>
          stale (trienodeHealRequestAt s' r) = Closed
        \<and> timeout (trienodeHealRequestAt s' r) \<noteq> Armed
        \<and> trienodeHealReqs s' = (trienodeHealReqs s)(id_req (trienodeHealRequestAt s r) := None)
        \<and> map_of (trieTasks (healTaskAt s' (trienodeHealRequest.task (trienodeHealRequestAt s r))))
            = map_of (trieTasks (healTaskAt s (trienodeHealRequest.task (trienodeHealRequestAt s r))))
              ++ map_of (rev (zip (trienodeHealRequest.hashes (trienodeHealRequestAt s r))
                                  (trienodeHealRequest.paths (trienodeHealRequestAt s r))))
        \<and> revertTrienodeHealRequest r s' = Inr s')))
   \<and> (\<exists>s'. revertBytecodeHealRequest r s = Inr s'
     \<and> (stale (bytecodeHealRequestAt s r) = Closed \<longrightarrow> s' = s)
     \<and> (stale (bytecodeHealRequestAt s r) = Open \<longrightarrow>
          stale (bytecodeHealRequestAt s' r) = Closed
        \<and> timeout (bytecodeHealRequestAt s' r) \<noteq> Armed
        \<and> bytecodeHealReqs s' = (bytecodeHealReqs s)(id_req (bytecodeHealRequestAt s r) := None)
        \<and> set (healCodeTasks (healTaskAt s' (bytecodeHealRequest.task (bytecodeHealRequestAt s r))))
            = set (bytecodeHealRequest.hashes (bytecodeHealRequestAt s r))
              \<union> set (healCodeTasks (healTaskAt s (bytecodeHealRequest.task (bytecodeHealRequestAt s r))))
        \<and> revertBytecodeHealRequest r s' = Inr s'))"
  by (intro conjI impI revertAccountRequest_spec revertBytecodeRequest_spec
        revertStorageRequest_spec revertTrienodeHealRequest_spec revertBytecodeHealRequest_spec)

theorem revert_restores_fragments_witness:
  "stale (accountRequestAt revertState 3) = Open
   \<and> length (storageRequest.accounts (storageRequestAt revertState 3))
        \<le> length (storageRequest.roots (storageRequestAt revertState 3))
   \<and> length (trienodeHealRequest.hashes (trienodeHealRequestAt revertState 3))
        \<le> length (trienodeHealRequest.paths (trienodeHealRequestAt revertState 3))
   \<and> req (accountTaskAt revertState 1) = Some 3
   \<and> (\<exists>s'. revertAccountRequest 3 revertState = Inr s'
          \<and> stale (accountRequestAt s' 3) = Closed
          \<and> accountReqs s' 9 = None
          \<and> req (accountTaskAt s' 1) = None
          \<and> revertAccountRequest 3 s' = Inr s')"
proof -
  have h: "stale (accountRequestAt revertState 3) = Open"
    "accountRequest.task (accountRequestAt revertState 3) = 1"
    "id_req (accountRequestAt revertState 3) = 9"
    "req (accountTaskAt revertState 1) = Some 3"
    "length (storageRequest.accounts (storageRequestAt revertState 3))
        \<le> length (storageRequest.roots (storageRequestAt revertState 3))"
    "length (trienodeHealRequest.hashes (trienodeHealRequestAt revertState 3))
        \<le> length (trienodeHealRequest.paths (trienodeHealRequestAt revertState 3))"
    by (simp_all add: revertState_def NewSyncer_def zeroRequest_def request.defs
          storageRequest.defs trienodeHealRequest.defs)
  from revert_restores_fragments [of 3 revertState] h show ?thesis
    by auto
qed

text \<open>
  C6 as stated fails for the account class: the revert of request 2, whose stale signal
  is open, leaves the task's request slot holding request 3.
\<close>

theorem revertAccountRequest_counterexample:
  "stale (accountRequestAt revertState 2) = Open
   \<and> accountRequest.task (accountRequestAt revertState 2) = 1
   \<and> \<not> isl (revertAccountRequest 2 revertState)
   \<and> stale (accountRequestAt (projr (revertAccountRequest 2 revertState)) 2) = Closed
   \<and> req (accountTaskAt (projr (revertAccountRequest 2 revertState)) 1) = Some 3
   \<and> req (accountTaskAt (projr (revertAccountRequest 2 revertState)) 1) \<noteq> None"
  by (simp add: revertAccountRequest_def revertState_def NewSyncer_def close_def Let_def Stop_def)

lemma proveAll_spec:
  "proveAll tr hs ns = Inr ns' \<Longrightarrow>
   ns \<subseteq> ns' \<and> (\<forall>h\<in>set hs. \<exists>ps. tr h = Some ps \<and> set ps \<subseteq> ns')"
proof (induction hs arbitrary: ns)
  case Nil
  then show ?case by simp
next
  case (Cons h hs)
  from Cons.prems obtain ps where ps: "tr h = Some ps"
    by (cases "tr h") simp_all
  with Cons.prems have "proveAll tr hs (ns \<union> set ps) = Inr ns'" by simp
  from Cons.IH [OF this] ps show ?case by auto
qed

lemma trimAccounts_spec:
  "trimAccounts lastH i hs r = Inr r' \<Longrightarrow> \<exists>h\<in>set hs. Big lastH < Big h \<Longrightarrow>
     accountResponse.hashes r'
       = take (i + length (takeWhile (\<lambda>h. Big h \<le> Big lastH) hs)) (accountResponse.hashes r)
   \<and> accountResponse.accounts r'
       = take (i + length (takeWhile (\<lambda>h. Big h \<le> Big lastH) hs)) (accountResponse.accounts r)
   \<and> \<not> accountResponse.cont r'
   \<and> accountResponse.overflow r \<subseteq> accountResponse.overflow r'
   \<and> (\<forall>h\<in>set (dropWhile (\<lambda>h. Big h \<le> Big lastH) hs).
         \<exists>ps. trie r h = Some ps \<and> set ps \<subseteq> accountResponse.overflow r')
   \<and> trie r' = trie r \<and> accountResponse.bounds r' = accountResponse.bounds r
   \<and> accountResponse.nodes r' = accountResponse.nodes r
   \<and> accountResponse.task r' = accountResponse.task r"
proof (induction hs arbitrary: i r)
  case Nil
  then show ?case by simp
next
  case (Cons h hs)
  show ?case
  proof (cases "Big lastH < Big h")
    case True
    with Cons.prems(1) obtain ov where
      ov: "proveAll (trie r) (h # hs) (accountResponse.overflow r) = Inr ov"
      and r': "r' = r\<lparr>accountResponse.overflow := ov,
                    accountResponse.hashes := take i (accountResponse.hashes r),
                    accountResponse.accounts := take i (accountResponse.accounts r),
                    accountResponse.cont := False\<rparr>"
      by (cases "proveAll (trie r) (h # hs) (accountResponse.overflow r)") auto
    from proveAll_spec [OF ov] True r' show ?thesis by simp
  next
    case False
    with Cons.prems(2) have ex: "\<exists>h\<in>set hs. Big lastH < Big h" by auto
    show ?thesis
    proof (cases "Big h = Big lastH")
      case True
      with Cons.prems(1)
      have "trimAccounts lastH (Suc i) hs (r\<lparr>accountResponse.cont := False\<rparr>) = Inr r'"
        by simp
      from Cons.IH [OF this ex] True show ?thesis by simp
    next
      case ne: False
      with False Cons.prems(1) have "trimAccounts lastH (Suc i) hs r = Inr r'"
        by simp
      from Cons.IH [OF this ex] False show ?thesis by simp
    qed
  qed
qed

lemma fillStep_frame:
  assumes "fillStep r tr i a resumed s = Inr (resumed', s')"
  shows "res (accountTaskAt s' tr) = res (accountTaskAt s tr) \<and> db s' = db s
    \<and> Next (accountTaskAt s' tr) = Next (accountTaskAt s tr)
    \<and> Last (accountTaskAt s' tr) = Last (accountTaskAt s tr)"
proof -
  let ?t = "accountTaskAt s tr"
  define t1 where "t1 = (if CodeHash a \<noteq> hashBytes emptyCode
                   \<and> kv (db s) (CodeKey (BytesToHash (CodeHash a))) = None
                then ?t\<lparr>codeTasks := List.insert (BytesToHash (CodeHash a)) (codeTasks ?t),
                       needCode := (needCode ?t)[i := True],
                       pend := pend ?t + 1\<rparr>
                else ?t)"
  have t1: "res t1 = res ?t" "Next t1 = Next ?t" "Last t1 = Last ?t"
    by (simp_all add: t1_def)
  show ?thesis
  proof (cases "Root a \<noteq> emptyRoot \<and> kv (db s) (TrieNodeKey (Root a)) = None")
    case False
    with assms have "s' = s\<lparr>accountTaskAt := (accountTaskAt s)(tr := t1)\<rparr>"
      by (simp add: fillStep_def Let_def t1_def)
    with t1 show ?thesis by simp
  next
    case True
    from True assms obtain h where h: "index (accountResponse.hashes r) i = Inr h"
      by (cases "index (accountResponse.hashes r) i") (simp_all add: fillStep_def Let_def)
    show ?thesis
    proof (cases "map_of (SubTasks t1) h")
      case None
      with True h assms have "s' = s\<lparr>accountTaskAt := (accountTaskAt s)
                               (tr := t1\<lparr>stateTasks := AList.update h (Root a) (stateTasks t1),
                                         needState := (needState t1)[i := True],
                                         pend := pend t1 + 1\<rparr>)\<rparr>"
        by (simp add: fillStep_def Let_def t1_def)
      with t1 show ?thesis by simp
    next
      case (Some subs)
      with True h assms have "s' = s\<lparr>storageTaskAt :=
                               fold (\<lambda>st m. m(st := (m st)\<lparr>storageTask.root := Root a\<rparr>))
                                    subs (storageTaskAt s),
                             accountTaskAt := (accountTaskAt s)
                               (tr := t1\<lparr>needHeal := (needHeal t1)[i := True],
                                         needState := (needState t1)[i := True],
                                         pend := pend t1 + 1\<rparr>)\<rparr>"
        by (simp add: fillStep_def Let_def t1_def)
      with t1 show ?thesis by simp
    qed
  qed
qed

lemma fillAccounts_frame:
  "fillAccounts r tr xs resumed s = Inr (resumed', s') \<Longrightarrow>
   res (accountTaskAt s' tr) = res (accountTaskAt s tr) \<and> db s' = db s
    \<and> Next (accountTaskAt s' tr) = Next (accountTaskAt s tr)
    \<and> Last (accountTaskAt s' tr) = Last (accountTaskAt s tr)"
proof (induction xs arbitrary: resumed s)
  case Nil
  then show ?case by simp
next
  case (Cons x xs)
  obtain i a where x: "x = (i, a)" by (cases x)
  from Cons.prems x obtain resumed1 s1 where
    st: "fillStep r tr i a resumed s = Inr (resumed1, s1)"
    and rec: "fillAccounts r tr xs resumed1 s1 = Inr (resumed', s')"
    by (cases "fillStep r tr i a resumed s") auto
  from fillStep_frame [OF st] Cons.IH [OF rec] show ?case by simp
qed

lemma snapshotAccounts_keys:
  "snapshotAccounts rlp r xs (batch, n) = Inr (batch', n') \<Longrightarrow>
   fst ` set batch' \<subseteq> fst ` set batch \<union> range AccountSnapshotKey"
proof (induction xs arbitrary: batch n)
  case Nil
  then show ?case by auto
next
  case (Cons x xs)
  obtain i h where x: "x = (i, h)" by (cases x)
  from Cons.prems x obtain a where
    "snapshotAccounts rlp r xs
       (batch @ [(AccountSnapshotKey h, rlp a)], n + (1 + HashLength + length (rlp a)))
     = Inr (batch', n')"
    by (cases "index (accountResponse.accounts r) i") auto
  from Cons.IH [OF this] show ?case by auto
qed

lemma forwardBatch_keys:
  assumes "forwardBatch rlp t r = Inr (batch, n)"
    and "k \<in> accountResponse.overflow r \<union> accountResponse.bounds r"
  shows "TrieNodeKey k \<notin> fst ` set batch"
proof -
  from assms(1) obtain inc where
    sn: "snapshotAccounts rlp r (enumerate 0 (accountResponse.hashes r))
           (map (\<lambda>(k, v). (TrieNodeKey k, v)) (persistNodes r inc),
            sum_list (map (\<lambda>(k, v). HashLength + length v) (persistNodes r inc)))
         = Inr (batch, n)"
    by (cases "incompletesLoop t r [0..<length (accountResponse.accounts r)] {}")
       (auto simp: forwardBatch_def Let_def)
  have "fst ` set (map (\<lambda>(k, v). (TrieNodeKey k, v)) (persistNodes r inc))
          = TrieNodeKey ` fst ` set (persistNodes r inc)"
    by (force simp: image_iff split_beta)
  with snapshotAccounts_keys [OF sn]
  have "fst ` set batch \<subseteq> TrieNodeKey ` fst ` set (persistNodes r inc) \<union> range AccountSnapshotKey"
    by simp
  moreover have "k \<notin> fst ` set (persistNodes r inc)"
    using assms(2) by (auto simp: persistNodes_def)
  ultimately show ?thesis by auto
qed

lemma batchWrite_other:
  "k \<notin> fst ` set batch \<Longrightarrow> kv (batchWrite batch d) k = kv d k"
proof -
  have "k \<notin> fst ` set batch \<Longrightarrow> fold (\<lambda>(k, v) m. m(k \<mapsto> v)) batch m k = m k" for m
    by (induction batch arbitrary: m) (auto simp: split_beta)
  then show "k \<notin> fst ` set batch \<Longrightarrow> kv (batchWrite batch d) k = kv d k"
    by (simp add: batchWrite_def)
qed

lemma forwardAccountTask_db:
  assumes "forwardAccountTask rlp tr s = Inr s'" and "res (accountTaskAt s tr) = Some r"
  shows "\<exists>batch. db s' = batchWrite batch (db s)
    \<and> (\<forall>k\<in>accountResponse.overflow r \<union> accountResponse.bounds r.
          TrieNodeKey k \<notin> fst ` set batch
        \<and> kv (db s') (TrieNodeKey k) = kv (db s) (TrieNodeKey k))"
proof -
  let ?t1 = "(accountTaskAt s tr)\<lparr>res := None\<rparr>"
  obtain batch n where fb: "forwardBatch rlp ?t1 r = Inr (batch, n)"
    using assms by (cases "forwardBatch rlp ?t1 r") (auto simp: forwardAccountTask_def Let_def)
  obtain t2 fin where adv: "advanceNext ?t1 (enumerate 0 (accountResponse.hashes r)) = Inr (t2, fin)"
    using assms fb
    by (cases "advanceNext ?t1 (enumerate 0 (accountResponse.hashes r))")
       (auto simp: forwardAccountTask_def Let_def)
  have "s' = (s\<lparr>db := batchWrite batch (db s),
                            accountBytes := accountBytes s + n,
                            accountSynced := accountSynced s
                               + of_nat (length (accountResponse.accounts r))\<rparr>)
            \<lparr>accountTaskAt := (accountTaskAt s)
               (tr := (if fin then t2\<lparr>done_flag := \<not> accountResponse.cont r\<rparr> else t2))\<rparr>"
    using assms fb adv by (simp add: forwardAccountTask_def Let_def)
  then have d: "db s' = batchWrite batch (db s)" by simp
  show ?thesis
    using d forwardBatch_keys [OF fb] batchWrite_other [of _ batch "db s"]
    by (intro exI [of _ batch]) auto
qed

lemma processAccountResponse_unfold:
  assumes "processAccountResponse rlp r0 s = Inr s'"
  shows "\<exists>r s3. trimAccounts (Last (accountTaskAt s (accountResponse.task r0))) 0
                 (accountResponse.hashes r0) r0 = Inr r
     \<and> res (accountTaskAt s3 (accountResponse.task r0)) = Some r
     \<and> db s3 = db s
     \<and> Next (accountTaskAt s3 (accountResponse.task r0)) = Next (accountTaskAt s (accountResponse.task r0))
     \<and> Last (accountTaskAt s3 (accountResponse.task r0)) = Last (accountTaskAt s (accountResponse.task r0))
     \<and> (if pend (accountTaskAt s3 (accountResponse.task r0)) = 0
         then forwardAccountTask rlp (accountResponse.task r0) s3 = Inr s'
         else s' = s3)"
proof -
  let ?tr = "accountResponse.task r0"
  let ?t0 = "accountTaskAt s ?tr"
  obtain r where tr: "trimAccounts (Last ?t0) 0 (accountResponse.hashes r0) r0 = Inr r"
    using assms
    by (cases "trimAccounts (Last ?t0) 0 (accountResponse.hashes r0) r0")
       (auto simp: processAccountResponse_def Let_def)
  let ?t1 = "?t0\<lparr>req := None, res := Some r,
                          needCode := replicate (length (accountResponse.accounts r)) False,
                          needState := replicate (length (accountResponse.accounts r)) False,
                          needHeal := replicate (length (accountResponse.accounts r)) False,
                          codeTasks := [], stateTasks := [], pend := 0\<rparr>"
  let ?s1 = "s\<lparr>accountTaskAt := (accountTaskAt s)(?tr := ?t1)\<rparr>"
  obtain resumed s2 where
    fa: "fillAccounts r ?tr (enumerate 0 (accountResponse.accounts r)) {} ?s1 = Inr (resumed, s2)"
    using assms tr
    by (cases "fillAccounts r ?tr (enumerate 0 (accountResponse.accounts r)) {} ?s1")
       (auto simp: processAccountResponse_def Let_def)
  let ?s3 = "s2\<lparr>accountTaskAt := (accountTaskAt s2)
      (?tr := (accountTaskAt s2 ?tr)
          \<lparr>SubTasks := filter (\<lambda>(h, subs). h \<in> resumed) (SubTasks (accountTaskAt s2 ?tr))\<rparr>)\<rparr>"
  have fin: "(if pend (accountTaskAt ?s3 ?tr) = 0 then forwardAccountTask rlp ?tr ?s3 else Inr ?s3) = Inr s'"
    using assms tr fa by (simp add: processAccountResponse_def Let_def)
  from fillAccounts_frame [OF fa]
  have f: "res (accountTaskAt s2 ?tr) = Some r" "db s2 = db s"
    "Next (accountTaskAt s2 ?tr) = Next ?t0" "Last (accountTaskAt s2 ?tr) = Last ?t0"
    by simp_all
  have "res (accountTaskAt ?s3 ?tr) = Some r" "db ?s3 = db s"
    "Next (accountTaskAt ?s3 ?tr) = Next ?t0" "Last (accountTaskAt ?s3 ?tr) = Last ?t0"
    using f by simp_all
  with tr fin show ?thesis
    by (intro exI [of _ r] exI [of _ ?s3]) (simp split: if_splits)
qed

text \<open>
  C4. When the hashes of an account response reach past the task's \<open>Last\<close>, the
  response kept is cut back to the hashes before the first one greater than \<open>Last\<close>,
  with as many accounts; every hash that remains is at most \<open>Last\<close>; for every hash
  cut off, the nodes of its proof are in the overflow set; the continuation flag is
  cleared. The response is then either kept in the task for further filling, with
  nothing written, or forwarded at once. The batch every forward writes holds no trie
  node of the overflow set or the boundary set of the response, and the database
  entries of those nodes are as they were.
\<close>

theorem processAccountResponse_trims_overflow:
  assumes "processAccountResponse rlp r0 s = Inr s'"
    and "\<exists>h\<in>set (accountResponse.hashes r0).
           Big (Last (accountTaskAt s (accountResponse.task r0))) < Big h"
  shows "(\<exists>r. accountResponse.hashes r
              = takeWhile (\<lambda>h. Big h \<le> Big (Last (accountTaskAt s (accountResponse.task r0))))
                  (accountResponse.hashes r0)
        \<and> accountResponse.accounts r
              = take (length (accountResponse.hashes r)) (accountResponse.accounts r0)
        \<and> (\<forall>h\<in>set (accountResponse.hashes r).
              Big h \<le> Big (Last (accountTaskAt s (accountResponse.task r0))))
        \<and> (\<forall>h\<in>set (drop (length (accountResponse.hashes r)) (accountResponse.hashes r0)).
              \<exists>ps. trie r0 h = Some ps \<and> set ps \<subseteq> accountResponse.overflow r)
        \<and> \<not> accountResponse.cont r
        \<and> accountResponse.bounds r = accountResponse.bounds r0
        \<and> (res (accountTaskAt s' (accountResponse.task r0)) = Some r \<and> db s' = db s
            \<or> res (accountTaskAt s' (accountResponse.task r0)) = None
              \<and> (\<exists>batch. db s' = batchWrite batch (db s)
                    \<and> (\<forall>k\<in>accountResponse.overflow r \<union> accountResponse.bounds r.
                          TrieNodeKey k \<notin> fst ` set batch
                        \<and> kv (db s') (TrieNodeKey k) = kv (db s) (TrieNodeKey k)))))
    \<and> (\<forall>(s1 :: 'a syncer) s2 tr r1.
          forwardAccountTask rlp tr s1 = Inr s2 \<and> res (accountTaskAt s1 tr) = Some r1 \<longrightarrow>
          (\<exists>batch. db s2 = batchWrite batch (db s1)
             \<and> (\<forall>k\<in>accountResponse.overflow r1 \<union> accountResponse.bounds r1.
                   TrieNodeKey k \<notin> fst ` set batch
                 \<and> kv (db s2) (TrieNodeKey k) = kv (db s1) (TrieNodeKey k))))"
proof (intro conjI allI impI)
  let ?tr = "accountResponse.task r0"
  let ?last = "Last (accountTaskAt s ?tr)"
  let ?P = "\<lambda>h. Big h \<le> Big ?last"
  from processAccountResponse_unfold [OF assms(1)] obtain r s3 where
    tr: "trimAccounts ?last 0 (accountResponse.hashes r0) r0 = Inr r"
    and rs: "res (accountTaskAt s3 ?tr) = Some r" and d: "db s3 = db s"
    and fin: "if pend (accountTaskAt s3 ?tr) = 0
              then forwardAccountTask rlp ?tr s3 = Inr s' else s' = s3"
    by blast
  from trimAccounts_spec [OF tr assms(2)]
  have sp: "accountResponse.hashes r = take (length (takeWhile ?P (accountResponse.hashes r0)))
                                         (accountResponse.hashes r0)"
    "accountResponse.accounts r = take (length (takeWhile ?P (accountResponse.hashes r0)))
                                         (accountResponse.accounts r0)"
    "\<not> accountResponse.cont r"
    "\<forall>h\<in>set (dropWhile ?P (accountResponse.hashes r0)).
         \<exists>ps. trie r0 h = Some ps \<and> set ps \<subseteq> accountResponse.overflow r"
    "accountResponse.bounds r = accountResponse.bounds r0"
    by simp_all
  have h: "accountResponse.hashes r = takeWhile ?P (accountResponse.hashes r0)"
    using sp(1) by (simp add: takeWhile_eq_take [symmetric])
  have a: "accountResponse.accounts r
             = take (length (accountResponse.hashes r)) (accountResponse.accounts r0)"
    using sp(2) h by simp
  have le: "\<forall>h\<in>set (accountResponse.hashes r). ?P h"
    unfolding h by (auto dest: set_takeWhileD)
  have dr: "drop (length (accountResponse.hashes r)) (accountResponse.hashes r0)
              = dropWhile ?P (accountResponse.hashes r0)"
    unfolding h by (simp add: dropWhile_eq_drop)
  have kept: "res (accountTaskAt s' ?tr) = Some r \<and> db s' = db s
            \<or> res (accountTaskAt s' ?tr) = None
              \<and> (\<exists>batch. db s' = batchWrite batch (db s)
                    \<and> (\<forall>k\<in>accountResponse.overflow r \<union> accountResponse.bounds r.
                          TrieNodeKey k \<notin> fst ` set batch
                        \<and> kv (db s') (TrieNodeKey k) = kv (db s) (TrieNodeKey k)))"
  proof (cases "pend (accountTaskAt s3 ?tr) = 0")
    case False
    with fin rs d show ?thesis by simp
  next
    case True
    with fin have fw: "forwardAccountTask rlp ?tr s3 = Inr s'" by simp
    from forwardAccountTask_cursor [OF fw rs] have "res (accountTaskAt s' ?tr) = None"
      by auto
    with forwardAccountTask_db [OF fw rs] d show ?thesis by simp
  qed
  show "\<exists>r. accountResponse.hashes r = takeWhile ?P (accountResponse.hashes r0)
        \<and> accountResponse.accounts r
              = take (length (accountResponse.hashes r)) (accountResponse.accounts r0)
        \<and> (\<forall>h\<in>set (accountResponse.hashes r). ?P h)
        \<and> (\<forall>h\<in>set (drop (length (accountResponse.hashes r)) (accountResponse.hashes r0)).
              \<exists>ps. trie r0 h = Some ps \<and> set ps \<subseteq> accountResponse.overflow r)
        \<and> \<not> accountResponse.cont r
        \<and> accountResponse.bounds r = accountResponse.bounds r0
        \<and> (res (accountTaskAt s' ?tr) = Some r \<and> db s' = db s
            \<or> res (accountTaskAt s' ?tr) = None
              \<and> (\<exists>batch. db s' = batchWrite batch (db s)
                    \<and> (\<forall>k\<in>accountResponse.overflow r \<union> accountResponse.bounds r.
                          TrieNodeKey k \<notin> fst ` set batch
                        \<and> kv (db s') (TrieNodeKey k) = kv (db s) (TrieNodeKey k))))"
    using h a le sp(3,4,5) kept unfolding dr [symmetric]
    by (intro exI [of _ r]) blast
next
  fix s1 s2 :: "'a syncer" and tr r1
  assume "forwardAccountTask rlp tr s1 = Inr s2 \<and> res (accountTaskAt s1 tr) = Some r1"
  then show "\<exists>batch. db s2 = batchWrite batch (db s1)
             \<and> (\<forall>k\<in>accountResponse.overflow r1 \<union> accountResponse.bounds r1.
                   TrieNodeKey k \<notin> fst ` set batch
                 \<and> kv (db s2) (TrieNodeKey k) = kv (db s1) (TrieNodeKey k))"
    using forwardAccountTask_db by blast
qed

lemma base_db: "kv (db (NewSyncer emptyDB ())) k = None"
  by (simp add: NewSyncer_def emptyDB_def)

lemma trim_run:
  "trimAccounts 0x100 0 [0x50, 0x200] overflowResponse
     = Inr (overflowResponse\<lparr>accountResponse.overflow := {2},
                    accountResponse.hashes := [0x50],
                    accountResponse.accounts := [plainAccount],
                    accountResponse.cont := False\<rparr>)"
  by (simp add: overflowResponse_def Big_def)

lemma fill_run:
  "fillStep trimmed tr 0 plainAccount {} s
     = Inr ({}, s\<lparr>accountTaskAt := (accountTaskAt s)(tr := accountTaskAt s tr)\<rparr>)"
  by (simp add: fillStep_def plainAccount_def)

lemma fw_run:
  assumes "accountTaskAt s tr = \<lparr>Next = 0, Last = 0x100, req = None, done_flag = False,
                 SubTasks = [], res = Some trimmed, pend = 0,
                 needCode = [False], needState = [False], needHeal = [False], codeTasks = [],
                 stateTasks = []\<rparr>"
  shows "\<exists>s'. forwardAccountTask (\<lambda>_. []) tr s = Inr s'
     \<and> db s' = batchWrite [(TrieNodeKey 1, [1]), (AccountSnapshotKey 0x50, [])] (db s)
     \<and> accountTaskAt s' tr = (accountTaskAt s tr)\<lparr>Next := 0x51, done_flag := True, res := None\<rparr>"
proof -
  have fb: "forwardBatch (\<lambda>_. []) ((accountTaskAt s tr)\<lparr>res := None\<rparr>) trimmed
     = Inr ([(TrieNodeKey 1, [1]), (AccountSnapshotKey 0x50, [])], HashLength + 1 + (1 + HashLength))"
    by (simp add: assms forwardBatch_def trimmed_def overflowResponse_def incomplete_def
          index_def persistNodes_def enumerate_eq_zip)
  have adv: "advanceNext ((accountTaskAt s tr)\<lparr>res := None\<rparr>)
               (enumerate 0 (accountResponse.hashes trimmed))
     = Inr ((accountTaskAt s tr)\<lparr>res := None, Next := 0x51\<rparr>, True)"
    by (simp add: assms trimmed_def overflowResponse_def incomplete_def index_def
          BigToHash_def Big_def)
  have rs: "res (accountTaskAt s tr) = Some trimmed" by (simp add: assms)
  have c: "\<not> accountResponse.cont trimmed" by (simp add: trimmed_def)
  show ?thesis
    using rs fb adv c
    by (simp add: forwardAccountTask_def Let_def)
qed

lemma overflowState_run:
  "\<exists>s'. processAccountResponse (\<lambda>_. []) overflowResponse overflowState = Inr s'
     \<and> db s' = batchWrite [(TrieNodeKey 1, [1]), (AccountSnapshotKey 0x50, [])] (db overflowState)
     \<and> Next (accountTaskAt s' 5) = 0x51 \<and> done_flag (accountTaskAt s' 5)"
proof -
  let ?t0 = "accountTaskAt overflowState 5"
  have t0: "?t0 = \<lparr>Next = 0, Last = 0x100, req = None, done_flag = False,
                 SubTasks = [], res = None, pend = 0,
                 needCode = [], needState = [], needHeal = [], codeTasks = [],
                 stateTasks = []\<rparr>"
    by (simp add: overflowState_def)
  have tk: "accountResponse.task overflowResponse = 5"
    "accountResponse.hashes overflowResponse = [0x50, 0x200]"
    by (simp_all add: overflowResponse_def)
  have tr: "trimAccounts (Last ?t0) 0 (accountResponse.hashes overflowResponse) overflowResponse
              = Inr trimmed"
  proof -
    have l: "Last ?t0 = 0x100" by (simp add: t0)
    show ?thesis unfolding l tk(2) trimmed_def by (rule trim_run)
  qed
  let ?t1 = "?t0\<lparr>req := None, res := Some trimmed,
                          needCode := replicate (length (accountResponse.accounts trimmed)) False,
                          needState := replicate (length (accountResponse.accounts trimmed)) False,
                          needHeal := replicate (length (accountResponse.accounts trimmed)) False,
                          codeTasks := [], stateTasks := [], pend := 0\<rparr>"
  let ?s1 = "overflowState\<lparr>accountTaskAt := (accountTaskAt overflowState)(5 := ?t1)\<rparr>"
  have ac: "accountResponse.accounts trimmed = [plainAccount]"
    by (simp add: trimmed_def)
  have fa: "fillAccounts trimmed 5 (enumerate 0 (accountResponse.accounts trimmed)) {} ?s1
              = Inr ({}, ?s1)"
    unfolding ac by (simp add: fill_run del: One_nat_def)
  let ?s3 = "?s1\<lparr>accountTaskAt := (accountTaskAt ?s1)
      (5 := (accountTaskAt ?s1 5)
          \<lparr>SubTasks := filter (\<lambda>(h, subs). h \<in> {}) (SubTasks (accountTaskAt ?s1 5))\<rparr>)\<rparr>"
  have t3: "accountTaskAt ?s3 5 = \<lparr>Next = 0, Last = 0x100, req = None, done_flag = False,
                 SubTasks = [], res = Some trimmed, pend = 0,
                 needCode = [False], needState = [False], needHeal = [False], codeTasks = [],
                 stateTasks = []\<rparr>"
    by (simp add: t0 ac)
  from fw_run [OF t3] obtain s' where
    fw: "forwardAccountTask (\<lambda>_. []) 5 ?s3 = Inr s'"
    and d: "db s' = batchWrite [(TrieNodeKey 1, [1]), (AccountSnapshotKey 0x50, [])] (db ?s3)"
    and t: "accountTaskAt s' 5 = (accountTaskAt ?s3 5)\<lparr>Next := 0x51, done_flag := True, res := None\<rparr>"
    by blast
  have p: "pend (accountTaskAt ?s3 5) = 0" by (simp add: t3)
  have "processAccountResponse (\<lambda>_. []) overflowResponse overflowState = Inr s'"
    using tr fa fw p by (simp add: processAccountResponse_def Let_def tk)
  with d t show ?thesis by simp
qed

theorem processAccountResponse_trims_overflow_witness:
  "processAccountResponse (\<lambda>_. []) overflowResponse overflowState
     = Inr (projr (processAccountResponse (\<lambda>_. []) overflowResponse overflowState))
   \<and> 0x200 \<in> set (accountResponse.hashes overflowResponse)
   \<and> Big (Last (accountTaskAt overflowState (accountResponse.task overflowResponse))) < Big 0x200
   \<and> kv (db (projr (processAccountResponse (\<lambda>_. []) overflowResponse overflowState)))
        (TrieNodeKey 2) = None
   \<and> kv (db (projr (processAccountResponse (\<lambda>_. []) overflowResponse overflowState)))
        (TrieNodeKey 3) = None
   \<and> kv (db (projr (processAccountResponse (\<lambda>_. []) overflowResponse overflowState)))
        (TrieNodeKey 1) = Some [1]"
proof -
  let ?s' = "projr (processAccountResponse (\<lambda>_. []) overflowResponse overflowState)"
  from overflowState_run obtain s' where
    run: "processAccountResponse (\<lambda>_. []) overflowResponse overflowState = Inr s'"
    and dbs: "db s' = batchWrite [(TrieNodeKey 1, [1]), (AccountSnapshotKey 0x50, [])] (db overflowState)"
    by blast
  have h1: "processAccountResponse (\<lambda>_. []) overflowResponse overflowState = Inr ?s'"
    using run by simp
  have s': "?s' = s'" using run by simp
  have m: "0x200 \<in> set (accountResponse.hashes overflowResponse)"
    and l: "Big (Last (accountTaskAt overflowState (accountResponse.task overflowResponse))) < Big 0x200"
    by (simp_all add: overflowResponse_def overflowState_def Big_def)
  then have h2: "\<exists>h\<in>set (accountResponse.hashes overflowResponse).
           Big (Last (accountTaskAt overflowState (accountResponse.task overflowResponse))) < Big h"
    by blast
  have d0: "kv (db overflowState) k = None" for k
    by (simp add: overflowState_def base_db)
  have dr: "drop (Suc 0) (accountResponse.hashes overflowResponse) = [0x200]"
    "takeWhile (\<lambda>h. Big h \<le> Big (Last (accountTaskAt overflowState
        (accountResponse.task overflowResponse)))) (accountResponse.hashes overflowResponse) = [0x50]"
    "trie overflowResponse 0x200 = Some [2]" "accountResponse.bounds overflowResponse = {3}"
    by (simp_all add: overflowResponse_def overflowState_def Big_def)
  note ex = processAccountResponse_trims_overflow [OF h1 h2, THEN conjunct1]
  from ex obtain r where
    r0: "accountResponse.hashes r
              = takeWhile (\<lambda>h. Big h \<le> Big (Last (accountTaskAt overflowState
                    (accountResponse.task overflowResponse))))
                  (accountResponse.hashes overflowResponse)"
       "accountResponse.accounts r
              = take (length (accountResponse.hashes r)) (accountResponse.accounts overflowResponse)"
       "\<forall>h\<in>set (accountResponse.hashes r).
              Big h \<le> Big (Last (accountTaskAt overflowState (accountResponse.task overflowResponse)))"
       "\<forall>h\<in>set (drop (length (accountResponse.hashes r)) (accountResponse.hashes overflowResponse)).
              \<exists>ps. trie overflowResponse h = Some ps \<and> set ps \<subseteq> accountResponse.overflow r"
       "\<not> accountResponse.cont r"
       "accountResponse.bounds r = accountResponse.bounds overflowResponse"
       "res (accountTaskAt ?s' (accountResponse.task overflowResponse)) = Some r \<and> db ?s' = db overflowState
            \<or> res (accountTaskAt ?s' (accountResponse.task overflowResponse)) = None
              \<and> (\<exists>batch. db ?s' = batchWrite batch (db overflowState)
                    \<and> (\<forall>k\<in>accountResponse.overflow r \<union> accountResponse.bounds r.
                          TrieNodeKey k \<notin> fst ` set batch
                        \<and> kv (db ?s') (TrieNodeKey k) = kv (db overflowState) (TrieNodeKey k)))"
    by (elim exE conjE) (rule that; assumption)
  have r1: "accountResponse.hashes r = [0x50]" using r0(1) dr(2) by simp
  have r3: "accountResponse.bounds r = {3}" using r0(6) dr(4) by simp
  have "\<exists>ps. trie overflowResponse 0x200 = Some ps \<and> set ps \<subseteq> accountResponse.overflow r"
    using r0(4) r1 dr(1) by simp
  then have two: "2 \<in> accountResponse.overflow r" using dr(3) by simp
  have eq: "kv (db ?s') (TrieNodeKey k) = kv (db overflowState) (TrieNodeKey k)"
    if "k \<in> accountResponse.overflow r \<union> accountResponse.bounds r" for k
    using r0(7) that by (elim disjE conjE exE) simp_all
  have "kv (db ?s') (TrieNodeKey 2) = None" "kv (db ?s') (TrieNodeKey 3) = None"
    using eq [of 2] eq [of 3] two r3 d0 by simp_all
  moreover have "kv (db ?s') (TrieNodeKey 1) = Some [1]"
    unfolding s' dbs by (simp add: batchWrite_def)
  ultimately show ?thesis using h1 m l by simp
qed

end
